theory Spec2Isabelle
  imports Complex_Main
begin

section \<open>Data model\<close>

text \<open>
  The scripts work on pandas data frames. A frame is modelled by the list of its numeric
  column names and the list of its rows; a row carries its \<open>symbol\<close>, its \<open>timestamp\<close>
  and one value per column name. The type of the values is a parameter: the tokenizer
  only hands them to the discretizers, the cleaning and prediction scripts use
  \<open>real option\<close>, where \<open>None\<close> is NaN (floats are idealised as reals).
\<close>

datatype py_error = KeyError | IndexError | ValueError | OSError

record 'v row =
  symbol :: string
  timestamp :: int
  vals :: "string \<Rightarrow> 'v"

record 'v frame =
  columns :: "string list"
  rows :: "'v row list"

text \<open>\<open>data['symbol'].unique()\<close>: the distinct values in order of first appearance.\<close>

fun unique :: "'a list \<Rightarrow> 'a list" where
  "unique [] = []"
| "unique (x # xs) = x # unique (filter (\<lambda>y. y \<noteq> x) xs)"

text \<open>
  \<open>data[data['symbol'] == symbol].sort_values('timestamp')\<close>: the rows of one symbol
  in ascending timestamp order (rows with equal timestamps keep their relative order
  in the model).
\<close>

definition symbol_rows :: "'v frame \<Rightarrow> string \<Rightarrow> 'v row list" where
  "symbol_rows data s = sort_key timestamp (filter (\<lambda>r. symbol r = s) (rows data))"

text \<open>
  Python's \<open>range(start, stop, step)\<close> for a positive step, as the loop it is; a step
  of zero raises ValueError at the call sites below.
\<close>

function py_range :: "int \<Rightarrow> int \<Rightarrow> int \<Rightarrow> int list" where
  "py_range i stop step =
     (if step \<le> 0 \<or> stop \<le> i then [] else i # py_range (i + step) stop step)"
  by pat_completeness auto
termination
  by (relation "measure (\<lambda>(i, stop, step). nat (stop - i))") auto

declare py_range.simps [simp del]

text \<open>
  numpy's \<open>float64\<close>, for the whole numbers the tokenizer computes with. A double holds
  an integer exactly if it has at most 53 significant bits; the result of an addition or
  a multiplication is rounded to the nearest such integer, to the one with an even
  significand in a tie. \<open>ulp_from a u\<close> doubles \<open>u\<close> until \<open>a div u\<close> has at most 53
  bits. The exponent range of a double is not modelled: a token overflows to infinity
  from \<open>2 ^ 1024\<close> on, which takes more than a hundred columns of 1000 bins.
\<close>

function ulp_from :: "int \<Rightarrow> int \<Rightarrow> int" where
  "ulp_from a u = (if u \<le> 0 \<or> a div u < 2 ^ 53 then u else ulp_from a (2 * u))"
  by pat_completeness auto
termination
proof (relation "measure (\<lambda>(a, u). nat (a div u))")
  show "wf (measure (\<lambda>(a, u). nat (a div u)))" by simp
next
  fix a u :: int
  assume "\<not> (u \<le> 0 \<or> a div u < 2 ^ 53)"
  then have u: "0 < u" and big: "2 ^ 53 \<le> a div u" by auto
  have "a div (2 * u) = a div u div 2"
    by (simp add: zdiv_zmult2_eq mult.commute)
  with big show "((a, 2 * u), (a, u)) \<in> measure (\<lambda>(a, u). nat (a div u))"
    by simp
qed

declare ulp_from.simps [simp del]

definition round_f64 :: "int \<Rightarrow> int" where
  "round_f64 x =
     (if \<bar>x\<bar> < 2 ^ 53 then x
      else let ulp = ulp_from \<bar>x\<bar> 1; q = \<bar>x\<bar> div ulp; r = \<bar>x\<bar> mod ulp
           in sgn x * ((if ulp < 2 * r \<or> (2 * r = ulp \<and> odd q) then q + 1 else q) * ulp))"

section \<open>KronosDataTokenizer\<close>

text \<open>
  The tokenizer object. \<open>'d\<close> is the type of a fitted \<open>KBinsDiscretizer\<close>, an object of
  scikit-learn; its two operations are parameters of the model:
  \<open>kfit n_bins column_values\<close> fits a discretizer and \<open>ktransform d v\<close> is the ordinal
  bin index of the value \<open>v\<close>, a whole number in a \<open>float64\<close> array. The tokens computed
  from it are therefore doubles: every sum and product of \<open>transform\<close> is rounded by
  \<open>round_f64\<close>. What scikit-learn may raise is not modelled. \<open>discretizers\<close> and \<open>special_tokens\<close> are dicts;
  the second one is kept as an association list since only its length is ever read.
  Counts and lengths (\<open>n_bins\<close>, \<open>sequence_length\<close>, \<open>stride\<close>, ...) are natural numbers.
\<close>

record 'd tokenizer =
  n_bins :: nat
  vocab_size :: nat
  discretizers :: "string \<rightharpoonup> 'd"
  special_tokens :: "(string \<times> nat) list"

definition default_special_tokens :: "(string \<times> nat) list" where
  "default_special_tokens =
     [(''pad'', 0), (''unk'', 1), (''cls'', 2), (''sep'', 3), (''mask'', 4)]"

definition init :: "nat \<Rightarrow> nat \<Rightarrow> 'd tokenizer" where
  "init nb vs =
     \<lparr>n_bins = nb, vocab_size = vs, discretizers = Map.empty,
      special_tokens = default_special_tokens\<rparr>"

text \<open>\<open>fit\<close>: one discretizer per feature column, fitted on all rows of the column.\<close>

fun fit_loop ::
  "(nat \<Rightarrow> 'v list \<Rightarrow> 'd) \<Rightarrow> 'v frame \<Rightarrow> 'd tokenizer \<Rightarrow> string list \<Rightarrow> py_error + 'd tokenizer"
where
  "fit_loop kfit data tk [] = Inr tk"
| "fit_loop kfit data tk (col # cs) =
     (if col \<notin> set (columns data) then Inl KeyError
      else fit_loop kfit data
             (tk\<lparr>discretizers :=
                   (discretizers tk)(col \<mapsto> kfit (n_bins tk) (map (\<lambda>r. vals r col) (rows data)))\<rparr>)
             cs)"

definition fit ::
  "(nat \<Rightarrow> 'v list \<Rightarrow> 'd) \<Rightarrow> 'd tokenizer \<Rightarrow> 'v frame \<Rightarrow> string list \<Rightarrow> py_error + 'd tokenizer"
where
  "fit kfit tk data feature_columns = fit_loop kfit data tk feature_columns"

text \<open>
  \<open>transform\<close>, first loop: the offset bin indices of every feature column that has a
  discretizer, one list per column, in the order of \<open>feature_columns\<close>. The bin index
  is stored as a double, the integer \<open>len(special_tokens)\<close> is converted to one, and
  their sum is a double.
\<close>

fun feature_tokens ::
  "('d \<Rightarrow> 'v \<Rightarrow> nat) \<Rightarrow> 'd tokenizer \<Rightarrow> string list \<Rightarrow> 'v row list \<Rightarrow> string list
     \<Rightarrow> py_error + int list list"
where
  "feature_tokens ktransform tk cols symbol_data [] = Inr []"
| "feature_tokens ktransform tk cols symbol_data (col # cs) =
     (case discretizers tk col of
        None \<Rightarrow> feature_tokens ktransform tk cols symbol_data cs
      | Some d \<Rightarrow>
          if col \<notin> set cols then Inl KeyError
          else (case feature_tokens ktransform tk cols symbol_data cs of
                  Inl e \<Rightarrow> Inl e
                | Inr rest \<Rightarrow>
                    Inr (map (\<lambda>r. round_f64 (round_f64 (int (ktransform d (vals r col)))
                                              + round_f64 (int (length (special_tokens tk)))))
                           symbol_data # rest)))"

text \<open>
  Second loop: the composite token of time step \<open>i\<close>, and all of them. \<open>token\<close> starts
  as the integer 0 and is a double from the first addition on; the product with the
  integer \<open>n_bins + len(special_tokens)\<close> and the sum are both rounded.
\<close>

definition combine_at :: "'d tokenizer \<Rightarrow> int list list \<Rightarrow> nat \<Rightarrow> int" where
  "combine_at tk fts i =
     foldl (\<lambda>token feat_tokens.
              if i < length feat_tokens
              then round_f64
                     (round_f64 (token * round_f64 (int (n_bins tk) + int (length (special_tokens tk))))
                      + feat_tokens ! i)
              else token)
       0 fts"

definition combined_tokens :: "'d tokenizer \<Rightarrow> int list list \<Rightarrow> py_error + int list" where
  "combined_tokens tk fts =
     (case fts of
        [] \<Rightarrow> Inl IndexError
      | f0 # _ \<Rightarrow> Inr (map (combine_at tk fts) [0..<length f0]))"

text \<open>Third loop: the full windows at offsets \<open>0, sequence_length, ...\<close>.\<close>

definition split_sequences :: "nat \<Rightarrow> int list \<Rightarrow> py_error + int list list" where
  "split_sequences sequence_length toks =
     (if sequence_length = 0 then Inl ValueError
      else Inr (filter (\<lambda>sq. length sq = sequence_length)
                  (map (\<lambda>i. take sequence_length (drop (nat i) toks))
                     (py_range 0 (int (length toks)) (int sequence_length)))))"

definition symbol_tokens ::
  "('d \<Rightarrow> 'v \<Rightarrow> nat) \<Rightarrow> 'd tokenizer \<Rightarrow> 'v frame \<Rightarrow> string list \<Rightarrow> string
     \<Rightarrow> py_error + int list"
where
  "symbol_tokens ktransform tk data feature_columns s =
     (case feature_tokens ktransform tk (columns data) (symbol_rows data s) feature_columns of
        Inl e \<Rightarrow> Inl e
      | Inr fts \<Rightarrow> combined_tokens tk fts)"

definition symbol_sequences ::
  "('d \<Rightarrow> 'v \<Rightarrow> nat) \<Rightarrow> 'd tokenizer \<Rightarrow> 'v frame \<Rightarrow> string list \<Rightarrow> nat \<Rightarrow> string
     \<Rightarrow> py_error + int list list"
where
  "symbol_sequences ktransform tk data feature_columns sequence_length s =
     (case symbol_tokens ktransform tk data feature_columns s of
        Inl e \<Rightarrow> Inl e
      | Inr toks \<Rightarrow> split_sequences sequence_length toks)"

fun transform_loop ::
  "('d \<Rightarrow> 'v \<Rightarrow> nat) \<Rightarrow> 'd tokenizer \<Rightarrow> 'v frame \<Rightarrow> string list \<Rightarrow> nat \<Rightarrow> string list
     \<Rightarrow> py_error + int list list"
where
  "transform_loop ktransform tk data feature_columns sequence_length [] = Inr []"
| "transform_loop ktransform tk data feature_columns sequence_length (s # ss) =
     (case symbol_sequences ktransform tk data feature_columns sequence_length s of
        Inl e \<Rightarrow> Inl e
      | Inr sequences \<Rightarrow>
          (case transform_loop ktransform tk data feature_columns sequence_length ss of
             Inl e \<Rightarrow> Inl e
           | Inr others \<Rightarrow> Inr (sequences @ others)))"

definition transform ::
  "('d \<Rightarrow> 'v \<Rightarrow> nat) \<Rightarrow> 'd tokenizer \<Rightarrow> 'v frame \<Rightarrow> string list \<Rightarrow> nat
     \<Rightarrow> py_error + int list list"
where
  "transform ktransform tk data feature_columns sequence_length =
     transform_loop ktransform tk data feature_columns sequence_length
       (unique (map symbol (rows data)))"

section \<open>Persistence\<close>

text \<open>
  \<open>save\<close> pickles a dict of four entries into a file and \<open>load\<close> unpickles it and
  rebuilds a tokenizer. Pickling is the serializer of the Python library: the file is
  modelled as holding the dict itself. Opening a file can fail.
\<close>

record 'd tokenizer_data =
  td_n_bins :: nat
  td_vocab_size :: nat
  td_discretizers :: "string \<rightharpoonup> 'd"
  td_special_tokens :: "(string \<times> nat) list"

record 'd filesystem =
  files :: "string \<rightharpoonup> 'd tokenizer_data"
  writable :: "string \<Rightarrow> bool"

definition save :: "'d tokenizer \<Rightarrow> string \<Rightarrow> 'd filesystem \<Rightarrow> py_error + 'd filesystem" where
  "save tk filepath fs =
     (let tokenizer_data =
            \<lparr>td_n_bins = n_bins tk, td_vocab_size = vocab_size tk,
             td_discretizers = discretizers tk, td_special_tokens = special_tokens tk\<rparr>
      in if writable fs filepath
         then Inr (fs\<lparr>files := (files fs)(filepath \<mapsto> tokenizer_data)\<rparr>)
         else Inl OSError)"

definition load :: "string \<Rightarrow> 'd filesystem \<Rightarrow> py_error + 'd tokenizer" where
  "load filepath fs =
     (case files fs filepath of
        None \<Rightarrow> Inl OSError
      | Some tokenizer_data \<Rightarrow>
          Inr ((init (td_n_bins tokenizer_data) (td_vocab_size tokenizer_data))
                 \<lparr>discretizers := td_discretizers tokenizer_data,
                  special_tokens := td_special_tokens tokenizer_data\<rparr>))"

section \<open>Training pairs\<close>

text \<open>
  \<open>create_sequences_for_training\<close>: per symbol, the sliding windows over the raw feature
  matrix; the input windows and the target windows are returned as two parallel lists.
\<close>

definition symbol_pairs ::
  "'v frame \<Rightarrow> string list \<Rightarrow> nat \<Rightarrow> nat \<Rightarrow> nat \<Rightarrow> string
     \<Rightarrow> py_error + ('v list list \<times> 'v list list) list"
where
  "symbol_pairs data feature_columns sequence_length prediction_length stride s =
     (if \<not> set feature_columns \<subseteq> set (columns data) then Inl KeyError
      else if stride = 0 then Inl ValueError
      else
        let features = map (\<lambda>r. map (vals r) feature_columns) (symbol_rows data s)
        in Inr (map (\<lambda>i. (take sequence_length (drop (nat i) features),
                           take prediction_length (drop (nat i + sequence_length) features)))
                  (py_range 0
                     (int (length features) - int sequence_length - int prediction_length)
                     (int stride))))"

fun pairs_loop ::
  "'v frame \<Rightarrow> string list \<Rightarrow> nat \<Rightarrow> nat \<Rightarrow> nat \<Rightarrow> string list
     \<Rightarrow> py_error + ('v list list \<times> 'v list list) list"
where
  "pairs_loop data feature_columns sequence_length prediction_length stride [] = Inr []"
| "pairs_loop data feature_columns sequence_length prediction_length stride (s # ss) =
     (case symbol_pairs data feature_columns sequence_length prediction_length stride s of
        Inl e \<Rightarrow> Inl e
      | Inr ps \<Rightarrow>
          (case pairs_loop data feature_columns sequence_length prediction_length stride ss of
             Inl e \<Rightarrow> Inl e
           | Inr others \<Rightarrow> Inr (ps @ others)))"

definition create_sequences_for_training ::
  "'v frame \<Rightarrow> string list \<Rightarrow> nat \<Rightarrow> nat \<Rightarrow> nat
     \<Rightarrow> py_error + ('v list list list \<times> 'v list list list)"
where
  "create_sequences_for_training data feature_columns sequence_length prediction_length stride =
     (case pairs_loop data feature_columns sequence_length prediction_length stride
             (unique (map symbol (rows data))) of
        Inl e \<Rightarrow> Inl e
      | Inr ps \<Rightarrow> Inr (map fst ps, map snd ps))"

section \<open>Cleaning\<close>

text \<open>
  Floating-point values are idealised as reals, with \<open>None\<close> for NaN: arithmetic with NaN
  gives NaN and every comparison with NaN is false. \<open>Series.quantile\<close> is an operation of
  pandas and a parameter of the model; it is applied to the values of the column that
  are not NaN.
\<close>

type_synonym val = "real option"

definition nan_add :: "val \<Rightarrow> val \<Rightarrow> val" where
  "nan_add a b = (case a of None \<Rightarrow> None | Some x \<Rightarrow> map_option (\<lambda>y. x + y) b)"

definition nan_sub :: "val \<Rightarrow> val \<Rightarrow> val" where
  "nan_sub a b = (case a of None \<Rightarrow> None | Some x \<Rightarrow> map_option (\<lambda>y. x - y) b)"

definition nan_scale :: "real \<Rightarrow> val \<Rightarrow> val" where
  "nan_scale k a = map_option (\<lambda>x. k * x) a"

definition nan_ge :: "val \<Rightarrow> val \<Rightarrow> bool" where
  "nan_ge a b = (case a of None \<Rightarrow> False | Some x \<Rightarrow> (case b of None \<Rightarrow> False | Some y \<Rightarrow> y \<le> x))"

definition nan_le :: "val \<Rightarrow> val \<Rightarrow> bool" where
  "nan_le a b = (case a of None \<Rightarrow> False | Some x \<Rightarrow> (case b of None \<Rightarrow> False | Some y \<Rightarrow> x \<le> y))"

text \<open>Python's \<open>max(0, b)\<close>: \<open>b\<close> if \<open>b > 0\<close>, else the first argument.\<close>

definition py_max0 :: "val \<Rightarrow> val" where
  "py_max0 b = (case b of None \<Rightarrow> Some 0 | Some x \<Rightarrow> if 0 < x then Some x else Some 0)"

text \<open>\<open>data.dropna()\<close>: the rows without a NaN in any column.\<close>

definition dropna :: "val frame \<Rightarrow> val frame" where
  "dropna data = data\<lparr>rows := filter (\<lambda>r. list_all (\<lambda>c. vals r c \<noteq> None) (columns data)) (rows data)\<rparr>"

definition column_values :: "string \<Rightarrow> val row list \<Rightarrow> real list" where
  "column_values col rs = List.map_filter (\<lambda>r. vals r col) rs"

definition price_columns :: "string list" where
  "price_columns = [''open'', ''high'', ''low'', ''close'']"

definition price_bounds :: "(real list \<Rightarrow> real \<Rightarrow> val) \<Rightarrow> val row list \<Rightarrow> string \<Rightarrow> val \<times> val" where
  "price_bounds quantile symbol_data col =
     (let Q1 = quantile (column_values col symbol_data) (1 / 4);
          Q3 = quantile (column_values col symbol_data) (3 / 4);
          IQR = nan_sub Q3 Q1;
          lower_bound = nan_sub Q1 (nan_scale (3 / 2) IQR);
          upper_bound = nan_add Q3 (nan_scale (3 / 2) IQR)
      in (lower_bound, upper_bound))"

definition volume_bounds :: "(real list \<Rightarrow> real \<Rightarrow> val) \<Rightarrow> val row list \<Rightarrow> val \<times> val" where
  "volume_bounds quantile symbol_data =
     (let Q1_vol = quantile (column_values ''volume'' symbol_data) (1 / 4);
          Q3_vol = quantile (column_values ''volume'' symbol_data) (3 / 4);
          IQR_vol = nan_sub Q3_vol Q1_vol;
          lower_bound_vol = nan_sub Q1_vol (nan_scale 3 IQR_vol);
          upper_bound_vol = nan_add Q3_vol (nan_scale 3 IQR_vol)
      in (py_max0 lower_bound_vol, upper_bound_vol))"

definition in_bounds :: "val \<times> val \<Rightarrow> val \<Rightarrow> bool" where
  "in_bounds b v = (nan_ge v (fst b) \<and> nan_le v (snd b))"

definition price_filter :: "(real list \<Rightarrow> real \<Rightarrow> val) \<Rightarrow> val row list \<Rightarrow> string \<Rightarrow> val row list" where
  "price_filter quantile symbol_data col =
     filter (\<lambda>r. in_bounds (price_bounds quantile symbol_data col) (vals r col)) symbol_data"

definition volume_filter :: "(real list \<Rightarrow> real \<Rightarrow> val) \<Rightarrow> val row list \<Rightarrow> val row list" where
  "volume_filter quantile symbol_data =
     filter (\<lambda>r. in_bounds (volume_bounds quantile symbol_data) (vals r ''volume'')) symbol_data"

definition clean_symbol ::
  "(real list \<Rightarrow> real \<Rightarrow> val) \<Rightarrow> string list \<Rightarrow> val row list \<Rightarrow> py_error + val row list"
where
  "clean_symbol quantile cols symbol_data =
     (if \<not> set price_columns \<subseteq> set cols then Inl KeyError
      else if ''volume'' \<notin> set cols then Inl KeyError
      else Inr (volume_filter quantile (foldl (price_filter quantile) symbol_data price_columns)))"

fun clean_loop ::
  "(real list \<Rightarrow> real \<Rightarrow> val) \<Rightarrow> val frame \<Rightarrow> string list \<Rightarrow> py_error + val row list list"
where
  "clean_loop quantile data [] = Inr []"
| "clean_loop quantile data (s # ss) =
     (case clean_symbol quantile (columns data) (filter (\<lambda>r. symbol r = s) (rows data)) of
        Inl e \<Rightarrow> Inl e
      | Inr symbol_data \<Rightarrow>
          (case clean_loop quantile data ss of
             Inl e \<Rightarrow> Inl e
           | Inr others \<Rightarrow> Inr (symbol_data # others)))"

text \<open>\<open>clean_data\<close> returns \<open>None\<close> when there was no symbol to clean.\<close>

definition clean_data :: "(real list \<Rightarrow> real \<Rightarrow> val) \<Rightarrow> val frame \<Rightarrow> py_error + val frame option" where
  "clean_data quantile data0 =
     (let data = dropna data0 in
      case clean_loop quantile data (unique (map symbol (rows data))) of
        Inl e \<Rightarrow> Inl e
      | Inr cleaned_data \<Rightarrow>
          if cleaned_data \<noteq> [] then Inr (Some (data\<lparr>rows := concat cleaned_data\<rparr>))
          else Inr None)"

section \<open>Preparing the input of a prediction\<close>

text \<open>
  The operations of pandas that \<open>calculate_technical_indicators\<close> uses, on a column given
  as a list: \<open>rolling(window).mean()\<close> and \<open>.std()\<close> are NaN until \<open>window\<close> values
  are available and where the window holds a NaN; \<open>ewm(span).mean()\<close> is the weighted
  mean with weights \<open>(1 - alpha) ^ i\<close>, \<open>alpha = 2 / (span + 1)\<close>.
\<close>

fun all_some :: "'a option list \<Rightarrow> 'a list option" where
  "all_some [] = Some []"
| "all_some (None # xs) = None"
| "all_some (Some x # xs) = map_option ((#) x) (all_some xs)"

definition rolling :: "(real list \<Rightarrow> real) \<Rightarrow> nat \<Rightarrow> val list \<Rightarrow> val list" where
  "rolling f window xs =
     map (\<lambda>i. if i + 1 < window then None
              else map_option f (all_some (take window (drop (i + 1 - window) xs))))
       [0..<length xs]"

definition mean :: "real list \<Rightarrow> real" where
  "mean ys = sum_list ys / real (length ys)"

definition std :: "real list \<Rightarrow> real" where
  "std ys = sqrt (sum_list (map (\<lambda>y. (y - mean ys) ^ 2) ys) / (real (length ys) - 1))"

fun ewm_step :: "real \<Rightarrow> val \<times> real \<Rightarrow> val \<Rightarrow> val \<times> real" where
  "ewm_step alpha (None, old_wt) cur = (cur, old_wt)"
| "ewm_step alpha (Some weighted, old_wt) None = (Some weighted, old_wt * (1 - alpha))"
| "ewm_step alpha (Some weighted, old_wt) (Some cur) =
     (Some ((old_wt * (1 - alpha) * weighted + cur) / (old_wt * (1 - alpha) + 1)),
      old_wt * (1 - alpha) + 1)"

fun ewm_loop :: "real \<Rightarrow> val \<times> real \<Rightarrow> val list \<Rightarrow> val list" where
  "ewm_loop alpha st [] = []"
| "ewm_loop alpha st (cur # xs) = fst (ewm_step alpha st cur) # ewm_loop alpha (ewm_step alpha st cur) xs"

definition ewm_mean :: "nat \<Rightarrow> val list \<Rightarrow> val list" where
  "ewm_mean span_len xs = ewm_loop (2 / (real span_len + 1)) (None, 1) xs"

definition diff :: "val list \<Rightarrow> val list" where
  "diff xs = (case xs of [] \<Rightarrow> [] | _ # later \<Rightarrow> None # map2 (\<lambda>prev cur. nan_sub cur prev) xs later)"

text \<open>
  \<open>100 - (100 / (1 + gain / loss))\<close> in floating point: a division of a positive number
  by zero is infinite and \<open>100 / (1 + inf)\<close> is zero, \<open>0 / 0\<close> is NaN. \<open>gain\<close> and \<open>loss\<close>
  are means of non-negative numbers.
\<close>

definition rsi_value :: "val \<Rightarrow> val \<Rightarrow> val" where
  "rsi_value gain loss =
     (case gain of None \<Rightarrow> None
      | Some g \<Rightarrow> (case loss of None \<Rightarrow> None
          | Some l \<Rightarrow> if l = 0 then (if g = 0 then None else Some 100)
                      else Some (100 - 100 / (1 + g / l))))"

text \<open>\<open>data[col] = series\<close> and \<open>data[col]\<close>.\<close>

definition set_column :: "string \<Rightarrow> val list \<Rightarrow> val frame \<Rightarrow> val frame" where
  "set_column col series data =
     \<lparr>columns = (if col \<in> set (columns data) then columns data else columns data @ [col]),
      rows = map2 (\<lambda>r v. r\<lparr>vals := (vals r)(col := v)\<rparr>) (rows data) series\<rparr>"

definition get_column :: "string \<Rightarrow> val frame \<Rightarrow> val list" where
  "get_column col data = map (\<lambda>r. vals r col) (rows data)"

text \<open>
  \<open>calculate_technical_indicators\<close>: the assignments of the eleven indicator columns, and
  then \<open>dropna\<close>.
\<close>

definition add_indicators :: "val frame \<Rightarrow> val frame" where
  "add_indicators data0 =
     (let close = get_column ''close'' data0;
          data = set_column ''sma_5'' (rolling mean 5 close) data0;
          data = set_column ''sma_20'' (rolling mean 20 close) data;
          data = set_column ''ema_12'' (ewm_mean 12 close) data;
          data = set_column ''ema_26'' (ewm_mean 26 close) data;
          delta = diff close;
          gain = rolling mean 14
                   (map (\<lambda>d. case d of None \<Rightarrow> Some 0 | Some x \<Rightarrow> if 0 < x then Some x else Some 0)
                      delta);
          loss = rolling mean 14
                   (map (\<lambda>d. case d of None \<Rightarrow> Some 0 | Some x \<Rightarrow> if x < 0 then Some (- x) else Some 0)
                      delta);
          data = set_column ''rsi'' (map2 rsi_value gain loss) data;
          data = set_column ''macd''
                   (map2 nan_sub (get_column ''ema_12'' data) (get_column ''ema_26'' data)) data;
          data = set_column ''macd_signal'' (ewm_mean 9 (get_column ''macd'' data)) data;
          data = set_column ''macd_histogram''
                   (map2 nan_sub (get_column ''macd'' data) (get_column ''macd_signal'' data)) data;
          data = set_column ''bb_middle'' (rolling mean 20 close) data;
          bb_std = rolling std 20 close;
          data = set_column ''bb_upper''
                   (map2 nan_add (get_column ''bb_middle'' data) (map (nan_scale 2) bb_std)) data;
          data = set_column ''bb_lower''
                   (map2 nan_sub (get_column ''bb_middle'' data) (map (nan_scale 2) bb_std)) data
      in data)"

definition calculate_technical_indicators :: "val frame \<Rightarrow> py_error + val frame" where
  "calculate_technical_indicators data =
     (if ''close'' \<notin> set (columns data) then Inl KeyError
      else Inr (dropna (add_indicators data)))"

text \<open>
  \<open>KronosCLI.prepare_data_for_prediction\<close>. \<open>scalers\<close> is the attribute of the object:
  \<open>None\<close> or a dict from symbols to dicts from columns to fitted scalers, a scaler being
  the function its \<open>transform\<close> applies to a value. The result holds the log, the input
  sequence (the tensor without its batch dimension) and \<open>recent_data\<close>.
\<close>

datatype log_entry = NotEnoughData nat nat

definition feature_columns_all :: "string list" where
  "feature_columns_all =
     [''open'', ''high'', ''low'', ''close'', ''volume'',
      ''sma_5'', ''sma_20'', ''ema_12'', ''ema_26'', ''rsi'',
      ''macd'', ''macd_signal'', ''macd_histogram'',
      ''bb_middle'', ''bb_upper'', ''bb_lower'']"

definition tail :: "nat \<Rightarrow> 'a list \<Rightarrow> 'a list" where
  "tail n xs = drop (length xs - n) xs"

fun apply_scalers :: "(string \<times> (real \<Rightarrow> real)) list \<Rightarrow> string list \<Rightarrow> val frame \<Rightarrow> val frame" where
  "apply_scalers symbol_scalers [] data = data"
| "apply_scalers symbol_scalers (col # cs) data =
     apply_scalers symbol_scalers cs
       (case map_of symbol_scalers col of
          None \<Rightarrow> data
        | Some scaler \<Rightarrow> set_column col (map (map_option scaler) (get_column col data)) data)"

definition scale_recent ::
  "(string \<times> (string \<times> (real \<Rightarrow> real)) list) list option \<Rightarrow> string list \<Rightarrow> val frame
     \<Rightarrow> py_error + val frame"
where
  "scale_recent scalers available_columns recent_data =
     (case scalers of
        None \<Rightarrow> Inr recent_data
      | Some [] \<Rightarrow> Inr recent_data
      | Some (sc # scs) \<Rightarrow>
          (case rows recent_data of
             [] \<Rightarrow> Inl IndexError
           | r0 # _ \<Rightarrow>
               (case map_of (sc # scs) (symbol r0) of
                  None \<Rightarrow> Inr recent_data
                | Some symbol_scalers \<Rightarrow>
                    Inr (apply_scalers symbol_scalers available_columns recent_data))))"

definition prepare_data_for_prediction ::
  "(string \<times> (string \<times> (real \<Rightarrow> real)) list) list option \<Rightarrow> val frame \<Rightarrow> nat
     \<Rightarrow> py_error + (log_entry list \<times> val list list \<times> val frame)"
where
  "prepare_data_for_prediction scalers data0 sequence_length0 =
     (let data = data0\<lparr>rows := sort_key timestamp (rows data0)\<rparr>;
          warnings = (if length (rows data) < sequence_length0
                      then [NotEnoughData (length (rows data)) sequence_length0] else []);
          sequence_length = (if length (rows data) < sequence_length0
                             then length (rows data) else sequence_length0);
          recent_data = data\<lparr>rows := tail sequence_length (rows data)\<rparr>
      in case (if ''sma_5'' \<notin> set (columns recent_data)
               then calculate_technical_indicators recent_data else Inr recent_data) of
           Inl e \<Rightarrow> Inl e
         | Inr recent_data \<Rightarrow>
             (let available_columns =
                    filter (\<lambda>col. col \<in> set (columns recent_data)) feature_columns_all
              in (case scale_recent scalers available_columns recent_data of
                    Inl e \<Rightarrow> Inl e
                  | Inr recent_data \<Rightarrow>
                      Inr (warnings,
                           map (\<lambda>r. map (vals r) available_columns) (rows recent_data),
                           recent_data))))"

section \<open>The specification's vocabulary\<close>

text \<open>
  The columns of \<open>feature_columns\<close> that have a fitted discretizer, the radix, the digits
  of one row (the offset bin index of every fitted column, in column order) and the
  mixed-radix accumulation \<open>token = token * radix + feature_bin\<close> of the specification.
\<close>

definition fitted_columns :: "'d tokenizer \<Rightarrow> string list \<Rightarrow> string list" where
  "fitted_columns tk feature_columns = filter (\<lambda>c. discretizers tk c \<noteq> None) feature_columns"

definition radix :: "'d tokenizer \<Rightarrow> int" where
  "radix tk = int (n_bins tk) + int (length (special_tokens tk))"

definition row_digits ::
  "('d \<Rightarrow> 'v \<Rightarrow> nat) \<Rightarrow> 'd tokenizer \<Rightarrow> string list \<Rightarrow> 'v row \<Rightarrow> int list"
where
  "row_digits ktransform tk feature_columns r =
     concat (map (\<lambda>c. case discretizers tk c of
                          None \<Rightarrow> []
                        | Some d \<Rightarrow> [int (ktransform d (vals r c)) + int (length (special_tokens tk))])
               feature_columns)"

definition mixed_radix :: "int \<Rightarrow> int list \<Rightarrow> int" where
  "mixed_radix b ds = foldl (\<lambda>token feature_bin. token * b + feature_bin) 0 ds"

definition spec_token ::
  "('d \<Rightarrow> 'v \<Rightarrow> nat) \<Rightarrow> 'd tokenizer \<Rightarrow> string list \<Rightarrow> 'v row \<Rightarrow> int"
where
  "spec_token ktransform tk feature_columns r =
     mixed_radix (radix tk) (row_digits ktransform tk feature_columns r)"

text \<open>
  The same accumulation as \<open>transform\<close> carries it out for one row, in doubles: the
  digits, the radix, the product and the sum are rounded.
\<close>

definition f64_digits ::
  "('d \<Rightarrow> 'v \<Rightarrow> nat) \<Rightarrow> 'd tokenizer \<Rightarrow> string list \<Rightarrow> 'v row \<Rightarrow> int list"
where
  "f64_digits ktransform tk feature_columns r =
     concat (map (\<lambda>c. case discretizers tk c of
                          None \<Rightarrow> []
                        | Some d \<Rightarrow> [round_f64 (round_f64 (int (ktransform d (vals r c)))
                                              + round_f64 (int (length (special_tokens tk))))])
               feature_columns)"

definition f64_accumulate :: "int \<Rightarrow> int list \<Rightarrow> int" where
  "f64_accumulate b ds =
     foldl (\<lambda>token feature_bin. round_f64 (round_f64 (token * round_f64 b) + feature_bin)) 0 ds"

definition row_token ::
  "('d \<Rightarrow> 'v \<Rightarrow> nat) \<Rightarrow> 'd tokenizer \<Rightarrow> string list \<Rightarrow> 'v row \<Rightarrow> int"
where
  "row_token ktransform tk feature_columns r =
     f64_accumulate (radix tk) (f64_digits ktransform tk feature_columns r)"

text \<open>The non-overlapping full windows of length \<open>n\<close> of a list.\<close>

definition windows :: "nat \<Rightarrow> 'a list \<Rightarrow> 'a list list" where
  "windows n xs = map (\<lambda>k. take n (drop (k * n) xs)) [0..<length xs div n]"

text \<open>
  The number of iterations of \<open>range(0, K - L - P, S)\<close> and the pair of windows cut at
  the \<open>k\<close>-th iteration.
\<close>

definition n_pairs :: "nat \<Rightarrow> nat \<Rightarrow> nat \<Rightarrow> nat \<Rightarrow> nat" where
  "n_pairs K L P S = nat ((int K - int L - int P + int S - 1) div int S)"

definition pair_at :: "nat \<Rightarrow> nat \<Rightarrow> nat \<Rightarrow> 'a list \<Rightarrow> nat \<Rightarrow> 'a list \<times> 'a list" where
  "pair_at L P S xs k = (take L (drop (k * S) xs), take P (drop (k * S + L) xs))"

section \<open>Example data\<close>

text \<open>
  A one-column series of \<open>n\<close> rows for one symbol, and an example discretizer: a list of
  interior bin edges, a value falling into the bin numbered by the edges not above it.
\<close>

definition series_row :: "string \<Rightarrow> nat \<Rightarrow> rat row" where
  "series_row s i = \<lparr>symbol = s, timestamp = int i, vals = (\<lambda>c. of_nat i)\<rparr>"

definition series :: "string \<Rightarrow> nat \<Rightarrow> rat frame" where
  "series s n = \<lparr>columns = [''close''], rows = map (series_row s) [0..<n]\<rparr>"

definition edges_transform :: "rat list \<Rightarrow> rat \<Rightarrow> nat" where
  "edges_transform edges v = length (filter (\<lambda>e. e \<le> v) edges)"

definition edges_fit :: "nat \<Rightarrow> rat list \<Rightarrow> rat list" where
  "edges_fit nb xs = take (nb - 1) (tl (remdups (sort xs)))"

text \<open>Two symbols, interleaved and out of order, and a tokenizer with two fitted columns.\<close>

definition quote :: "string \<Rightarrow> int \<Rightarrow> rat \<Rightarrow> rat \<Rightarrow> rat row" where
  "quote s t opn cls =
     \<lparr>symbol = s, timestamp = t, vals = (\<lambda>c. if c = ''open'' then opn else cls)\<rparr>"

definition example_frame :: "rat frame" where
  "example_frame =
     \<lparr>columns = [''open'', ''close''],
      rows = [quote ''TCS'' 2 15 5, quote ''INFY'' 1 5 5, quote ''TCS'' 1 25 35,
              quote ''INFY'' 3 35 15, quote ''TCS'' 3 5 25, quote ''INFY'' 2 15 25,
              quote ''TCS'' 4 5 5, quote ''TCS'' 5 35 35]\<rparr>"

definition example_tokenizer :: "rat list tokenizer" where
  "example_tokenizer =
     (init 1000 10000)\<lparr>discretizers := [''open'' \<mapsto> [10, 20, 30], ''close'' \<mapsto> [10, 20, 30]]\<rparr>"

text \<open>
  Six fitted columns of a thousand bins each (the bin of a whole number below 1000 is the
  number itself), and two rows of one symbol that differ in the last column only.
\<close>

definition six_columns :: "string list" where
  "six_columns = [''open'', ''high'', ''low'', ''close'', ''volume'', ''sma_5'']"

definition thousand_bins :: "rat list" where
  "thousand_bins = map of_nat [1..<1000]"

definition six_tokenizer :: "rat list tokenizer" where
  "six_tokenizer =
     (init 1000 10000)\<lparr>discretizers := map_of (map (\<lambda>c. (c, thousand_bins)) six_columns)\<rparr>"

definition flat_row :: "int \<Rightarrow> rat \<Rightarrow> rat row" where
  "flat_row t v = \<lparr>symbol = ''TCS'', timestamp = t, vals = (\<lambda>c. if c = ''sma_5'' then v else 999)\<rparr>"

definition six_frame :: "rat frame" where
  "six_frame = \<lparr>columns = six_columns, rows = [flat_row 1 999, flat_row 2 995]\<rparr>"

text \<open>Two rows that agree on everything \<open>transform\<close> reads for the given columns.\<close>

definition same_features :: "string list \<Rightarrow> 'v row \<Rightarrow> 'v row \<Rightarrow> bool" where
  "same_features feature_columns r1 r2 =
     (symbol r1 = symbol r2 \<and> timestamp r1 = timestamp r2
      \<and> list_all (\<lambda>c. vals r1 c = vals r2 c) feature_columns)"

definition empty_disk :: "rat list filesystem" where
  "empty_disk = \<lparr>files = Map.empty, writable = (\<lambda>p. p \<noteq> [])\<rparr>"

text \<open>
  Five days of quotes for one symbol, as \<open>download_stock_data\<close> returns them (no indicator
  columns), and scalers loaded for that symbol.
\<close>

definition ohlcv :: "string \<Rightarrow> int \<Rightarrow> real \<Rightarrow> real \<Rightarrow> real \<Rightarrow> real \<Rightarrow> real \<Rightarrow> val row" where
  "ohlcv s t opn hi lo cls vol =
     \<lparr>symbol = s, timestamp = t,
      vals = (\<lambda>c. if c = ''open'' then Some opn else if c = ''high'' then Some hi
                  else if c = ''low'' then Some lo else if c = ''close'' then Some cls
                  else if c = ''volume'' then Some vol else None)\<rparr>"

definition five_days :: "val frame" where
  "five_days =
     \<lparr>columns = [''open'', ''high'', ''low'', ''close'', ''volume''],
      rows = [ohlcv ''TCS.NS'' 1 100 104 99 102 5000, ohlcv ''TCS.NS'' 2 102 105 101 104 5200,
              ohlcv ''TCS.NS'' 3 104 106 100 101 6100, ohlcv ''TCS.NS'' 4 101 103 98 99 4800,
              ohlcv ''TCS.NS'' 5 99 102 97 100 5500]\<rparr>"

definition loaded_scalers :: "(string \<times> (string \<times> (real \<Rightarrow> real)) list) list" where
  "loaded_scalers = [(''TCS.NS'', [(''close'', \<lambda>x. (x - 100) / 2)])]"

text \<open>The default of \<open>Series.quantile\<close>: linear interpolation between order statistics.\<close>

definition quantile_linear :: "real list \<Rightarrow> real \<Rightarrow> val" where
  "quantile_linear xs p =
     (if xs = [] then None
      else let s = sort xs; h = (real (length xs) - 1) * p; i = nat \<lfloor>h\<rfloor>
           in Some (if i + 1 < length s then s ! i + (h - real i) * (s ! (i + 1) - s ! i)
                    else s ! i))"

text \<open>The five days with an outlier of the closing price and a row without volume.\<close>

definition dirty_days :: "val frame" where
  "dirty_days =
     five_days\<lparr>rows := rows five_days
        @ [ohlcv ''TCS.NS'' 6 100 103 99 250 5100,
           (ohlcv ''TCS.NS'' 7 100 103 99 101 0)\<lparr>vals := (vals (ohlcv ''TCS.NS'' 7 100 103 99 101 0))(''volume'' := None)\<rparr>]\<rparr>"

section \<open>Verification\<close>

subsection \<open>Rounding to a double\<close>

lemma ulp_from_step: "0 < u \<Longrightarrow> \<not> a div u < 2 ^ 53 \<Longrightarrow> ulp_from a u = ulp_from a (2 * u)"
  by (subst ulp_from.simps) simp

lemma ulp_from_stop: "a div u < 2 ^ 53 \<Longrightarrow> ulp_from a u = u"
  by (subst ulp_from.simps) simp

lemma round_f64_small: "\<bar>x\<bar> < 2 ^ 53 \<Longrightarrow> round_f64 x = x"
  by (simp add: round_f64_def)

lemma ulp_from_props:
  "0 < u \<Longrightarrow> 2 ^ 52 \<le> a div u \<Longrightarrow>
   u \<le> ulp_from a u \<and> 2 ^ 52 \<le> a div ulp_from a u \<and> a div ulp_from a u < 2 ^ 53"
proof (induction a u rule: ulp_from.induct)
  case (1 a u)
  show ?case
  proof (cases "a div u < 2 ^ 53")
    case True
    with "1.prems" show ?thesis by (simp add: ulp_from.simps [of a u])
  next
    case False
    have half: "a div (2 * u) = a div u div 2"
      by (simp add: zdiv_zmult2_eq mult.commute)
    from False have "2 ^ 52 \<le> a div (2 * u)" unfolding half by simp
    with "1.IH" "1.prems" False
    have "2 * u \<le> ulp_from a (2 * u) \<and> 2 ^ 52 \<le> a div ulp_from a (2 * u)
            \<and> a div ulp_from a (2 * u) < 2 ^ 53"
      by simp
    with False "1.prems" show ?thesis by (simp add: ulp_from.simps [of a u])
  qed
qed

lemma round_f64_large:
  assumes "2 ^ 53 \<le> x"
  shows "2 ^ 53 \<le> round_f64 x"
proof -
  define v where "v = ulp_from x 1"
  from assms have "2 ^ 52 \<le> x div 1" by simp
  with ulp_from_props [of 1 x] have v1: "1 \<le> v" and lo: "2 ^ 52 \<le> x div v" and hi: "x div v < 2 ^ 53"
    by (simp_all add: v_def)
  from hi assms have "v \<noteq> 1" by auto
  with v1 have v2: "2 \<le> v" by simp
  have "(2::int) ^ 53 = 2 ^ 52 * 2" by simp
  also have "\<dots> \<le> (x div v) * v"
    using lo v2 by (intro mult_mono) simp_all
  finally have base: "2 ^ 53 \<le> (x div v) * v" .
  have "(x div v) * v \<le> (if v < 2 * (x mod v) \<or> (2 * (x mod v) = v \<and> odd (x div v)) then x div v + 1 else x div v) * v"
    using v1 by (simp add: mult_right_mono)
  with base assms show ?thesis
    by (simp add: round_f64_def Let_def v_def [symmetric])
qed

lemma round_f64_cap: "0 \<le> x \<Longrightarrow> min x (2 ^ 53) \<le> round_f64 x"
proof (cases "x < 2 ^ 53")
  case True
  assume "0 \<le> x"
  with True have "round_f64 x = x" by (intro round_f64_small) simp
  then show ?thesis by simp
next
  case False
  then have "2 ^ 53 \<le> round_f64 x" by (intro round_f64_large) simp
  then show ?thesis by (simp only: min_le_iff_disj) simp
qed

lemma round_f64_nonneg: "0 \<le> x \<Longrightarrow> 0 \<le> round_f64 x"
  using round_f64_cap [of x] by simp


subsection \<open>Python ranges and windows\<close>

lemma py_range_length:
  "0 < step \<Longrightarrow> length (py_range i stop step) = nat ((stop - i + step - 1) div step)"
proof (induction i stop step rule: py_range.induct)
  case (1 i stop step)
  show ?case
  proof (cases "stop \<le> i")
    case True
    then have "(stop - i + step - 1) div step \<le> 0"
      using "1.prems" nle_le pos_imp_zdiv_nonneg_iff by fastforce
    with True show ?thesis by (simp add: py_range.simps [of i stop step])
  next
    case False
    have "stop - i + step - 1 = (stop - (i + step) + step - 1) + step"
      by simp
    then have "(stop - i + step - 1) div step = (stop - (i + step) + step - 1) div step + 1"
      using "1.prems" by (metis div_add_self2 less_irrefl)
    moreover have "0 \<le> (stop - (i + step) + step - 1) div step"
      using False "1.prems" by (simp add: pos_imp_zdiv_nonneg_iff)
    ultimately show ?thesis
      using False "1.prems" "1.IH" by (simp add: py_range.simps [of i stop step] nat_add_distrib)
  qed
qed

lemma py_range_nth:
  "0 < step \<Longrightarrow> k < length (py_range i stop step) \<Longrightarrow> py_range i stop step ! k = i + int k * step"
proof (induction i stop step arbitrary: k rule: py_range.induct)
  case (1 i stop step)
  show ?case
  proof (cases "stop \<le> i")
    case True
    with "1.prems" show ?thesis by (simp add: py_range.simps [of i stop step])
  next
    case False
    show ?thesis
    proof (cases k)
      case 0
      with False "1.prems" show ?thesis by (simp add: py_range.simps [of i stop step])
    next
      case (Suc j)
      with False "1.prems" have "j < length (py_range (i + step) stop step)"
        by (simp add: py_range.simps [of i stop step])
      with "1.IH" False "1.prems" have "py_range (i + step) stop step ! j = i + step + int j * step"
        by simp
      with False "1.prems" Suc show ?thesis
        by (simp add: py_range.simps [of i stop step] algebra_simps)
    qed
  qed
qed

lemma py_range_eq:
  "0 < step \<Longrightarrow>
   py_range i stop step = map (\<lambda>k. i + int k * step) [0..<nat ((stop - i + step - 1) div step)]"
  by (rule nth_equalityI) (simp_all add: py_range_length py_range_nth)

lemma ceil_div_nat: "0 < (s::nat) \<Longrightarrow> nat ((int n + int s - 1) div int s) = (n + s - 1) div s"
  by (metis int_minus nat_div_distrib' nat_int of_nat_0_le_iff of_nat_1 of_nat_add)

lemma py_range_nat:
  "0 < s \<Longrightarrow> py_range 0 (int n) (int s) = map (\<lambda>k. int (k * s)) [0..<(n + s - 1) div s]"
  using py_range_eq [of "int s" 0 "int n"] by (simp add: ceil_div_nat)

lemma filter_upt_less: "m \<le> n \<Longrightarrow> filter (\<lambda>k. k < m) [0..<n] = [0..<m]"
proof (induction n)
  case 0
  then show ?case by simp
next
  case (Suc n)
  show ?case
  proof (cases "m = Suc n")
    case True
    have "filter (\<lambda>k. k < Suc n) [0..<Suc n] = [0..<Suc n]"
      by (rule filter_True) simp
    with True show ?thesis by simp
  next
    case False
    with Suc show ?thesis by simp
  qed
qed

lemma split_sequences_eq:
  assumes "0 < L"
  shows "split_sequences L toks =
           Inr (map (\<lambda>k. take L (drop (k * L) toks)) [0..<length toks div L])"
proof -
  let ?N = "length toks"
  have le: "?N div L \<le> (?N + L - 1) div L"
    using assms by (intro div_le_mono) simp
  have full: "(min (?N - k * L) L = L) = (k < ?N div L)" for k
  proof -
    have "(k < ?N div L) = (Suc k * L \<le> ?N)"
      using assms by (simp add: Suc_le_eq [symmetric] less_eq_div_iff_mult_less_eq del: mult_Suc)
    then show ?thesis using assms by (auto simp: min_def)
  qed
  have "filter (\<lambda>sq. length sq = L) (map (\<lambda>k. take L (drop (k * L) toks)) [0..<(?N + L - 1) div L])
        = map (\<lambda>k. take L (drop (k * L) toks)) (filter (\<lambda>k. k < ?N div L) [0..<(?N + L - 1) div L])"
    by (simp add: filter_map o_def full)
  also have "\<dots> = map (\<lambda>k. take L (drop (k * L) toks)) [0..<?N div L]"
    using filter_upt_less [OF le] by simp
  finally show ?thesis
    using assms by (simp add: split_sequences_def py_range_nat o_def nat_mult_distrib)
qed

subsection \<open>Composite tokens\<close>

lemma feature_tokens_char:
  "feature_tokens ktr tk cols rs fcs =
     (if set (fitted_columns tk fcs) \<subseteq> set cols
      then Inr (map (\<lambda>c. map (\<lambda>r. round_f64 (round_f64 (int (ktr (the (discretizers tk c)) (vals r c)))
                                               + round_f64 (int (length (special_tokens tk))))) rs)
                  (fitted_columns tk fcs))
      else Inl KeyError)"
  by (induction fcs) (auto simp: fitted_columns_def split: option.splits)

lemma row_digits_fitted:
  "row_digits ktr tk fcs r =
     map (\<lambda>c. int (ktr (the (discretizers tk c)) (vals r c)) + int (length (special_tokens tk)))
       (fitted_columns tk fcs)"
  by (induction fcs) (auto simp: row_digits_def fitted_columns_def split: option.splits)

lemma f64_digits_fitted:
  "f64_digits ktr tk fcs r =
     map (\<lambda>c. round_f64 (round_f64 (int (ktr (the (discretizers tk c)) (vals r c)))
                          + round_f64 (int (length (special_tokens tk)))))
       (fitted_columns tk fcs)"
  by (induction fcs) (auto simp: f64_digits_def fitted_columns_def split: option.splits)

lemma foldl_guarded:
  "\<forall>ft \<in> set fts. i < length ft \<Longrightarrow>
   foldl (\<lambda>token ft. if i < length ft then g token (ft ! i) else token) a fts
     = foldl g a (map (\<lambda>ft. ft ! i) fts)"
  by (induction fts arbitrary: a) auto

lemma combine_at_eq:
  "\<forall>ft \<in> set fts. i < length ft \<Longrightarrow>
   combine_at tk fts i = f64_accumulate (radix tk) (map (\<lambda>ft. ft ! i) fts)"
  unfolding combine_at_def f64_accumulate_def radix_def
  by (rule foldl_guarded
        [where g = "\<lambda>token d. round_f64 (round_f64 (token * round_f64 (int (n_bins tk)
                       + int (length (special_tokens tk)))) + d)"])

lemma symbol_tokens_char:
  "symbol_tokens ktr tk data fcs s =
     (if \<not> set (fitted_columns tk fcs) \<subseteq> set (columns data) then Inl KeyError
      else if fitted_columns tk fcs = [] then Inl IndexError
      else Inr (map (row_token ktr tk fcs) (symbol_rows data s)))"
proof (cases "set (fitted_columns tk fcs) \<subseteq> set (columns data)")
  case False
  then show ?thesis by (simp add: symbol_tokens_def feature_tokens_char)
next
  case sub: True
  show ?thesis
  proof (cases "fitted_columns tk fcs")
    case Nil
    with sub show ?thesis
      by (simp add: symbol_tokens_def feature_tokens_char combined_tokens_def)
  next
    case (Cons c cs)
    let ?rs = "symbol_rows data s"
    let ?dig = "\<lambda>c r. round_f64 (round_f64 (int (ktr (the (discretizers tk c)) (vals r c)))
                                 + round_f64 (int (length (special_tokens tk))))"
    let ?fts = "map (\<lambda>c. map (?dig c) ?rs) (fitted_columns tk fcs)"
    have tok: "combine_at tk ?fts i = row_token ktr tk fcs (?rs ! i)" if "i < length ?rs" for i
    proof -
      have "\<forall>ft \<in> set ?fts. i < length ft" using that by auto
      then have "combine_at tk ?fts i = f64_accumulate (radix tk) (map (\<lambda>ft. ft ! i) ?fts)"
        by (rule combine_at_eq)
      also have "map (\<lambda>ft. ft ! i) ?fts = f64_digits ktr tk fcs (?rs ! i)"
        using that by (simp add: f64_digits_fitted o_def)
      finally show ?thesis by (simp add: row_token_def)
    qed
    have "map (combine_at tk ?fts) [0..<length ?rs] = map (row_token ktr tk fcs) ?rs"
      by (rule nth_equalityI) (simp_all add: tok)
    with sub Cons show ?thesis
      by (simp add: symbol_tokens_def feature_tokens_char combined_tokens_def)
  qed
qed

lemma mixed_radix_snoc: "mixed_radix b (ds @ [d]) = mixed_radix b ds * b + d"
  by (simp add: mixed_radix_def)

lemma mixed_radix_positional:
  "mixed_radix b ds = (\<Sum>j < length ds. ds ! j * b ^ (length ds - 1 - j))"
proof (induction ds rule: rev_induct)
  case Nil
  show ?case by (simp add: mixed_radix_def)
next
  case (snoc d ds)
  have "(\<Sum>j < length ds. (ds @ [d]) ! j * b ^ (length ds - j))
        = (\<Sum>j < length ds. ds ! j * b ^ (length ds - 1 - j) * b)"
  proof (rule sum.cong)
    fix j assume "j \<in> {..<length ds}"
    then have j: "j < length ds" by simp
    then have "length ds - j = Suc (length ds - 1 - j)" by simp
    with j show "(ds @ [d]) ! j * b ^ (length ds - j) = ds ! j * b ^ (length ds - 1 - j) * b"
      by (simp add: nth_append)
  qed simp
  then show ?case
    by (simp add: mixed_radix_snoc snoc.IH sum_distrib_right)
qed

lemma mixed_radix_nonneg:
  "0 \<le> b \<Longrightarrow> \<forall>d \<in> set ds. 0 \<le> d \<Longrightarrow> 0 \<le> mixed_radix b ds"
  by (induction ds rule: rev_induct) (auto simp: mixed_radix_snoc mixed_radix_def)

lemma f64_accumulate_snoc:
  "f64_accumulate b (ds @ [d]) = round_f64 (round_f64 (f64_accumulate b ds * round_f64 b) + d)"
  by (simp add: f64_accumulate_def)

text \<open>
  Below \<open>2 ^ 53\<close> nothing is rounded: the token of a row is the mixed-radix number of its
  digits.
\<close>

lemma f64_accumulate_exact:
  assumes b: "1 \<le> b" "b < 2 ^ 53"
  shows "\<forall>d \<in> set ds. 0 \<le> d \<Longrightarrow> mixed_radix b ds < 2 ^ 53 \<Longrightarrow>
         f64_accumulate b ds = mixed_radix b ds \<and> (\<forall>d \<in> set ds. d < 2 ^ 53)"
proof (induction ds rule: rev_induct)
  case Nil
  show ?case by (simp add: f64_accumulate_def mixed_radix_def)
next
  case (snoc d ds)
  let ?m = "mixed_radix b ds"
  from snoc.prems have nn: "\<forall>d \<in> set ds. 0 \<le> d" and d0: "0 \<le> d" by simp_all
  from b nn have m0: "0 \<le> ?m" by (intro mixed_radix_nonneg) simp_all
  from snoc.prems have tot: "?m * b + d < 2 ^ 53" by (simp only: mixed_radix_snoc)
  from m0 b have mb: "?m \<le> ?m * b" by (simp add: mult_le_cancel_left1)
  with tot d0 have m_lt: "?m < 2 ^ 53" and mb_lt: "?m * b < 2 ^ 53" and d_lt: "d < 2 ^ 53"
    using m0 b by auto
  from nn m_lt have ih: "f64_accumulate b ds = ?m" and small: "\<forall>d \<in> set ds. d < 2 ^ 53"
    using snoc.IH by simp_all
  have rb: "round_f64 b = b" using b by (intro round_f64_small) simp
  have rmb: "round_f64 (?m * b) = ?m * b" using m0 b mb_lt by (intro round_f64_small) simp
  have rt: "round_f64 (?m * b + d) = ?m * b + d" using m0 b d0 tot by (intro round_f64_small) simp
  have "f64_accumulate b (ds @ [d]) = mixed_radix b (ds @ [d])"
    by (simp only: f64_accumulate_snoc ih rb rmb rt mixed_radix_snoc)
  with small d_lt show ?case by simp
qed

lemma f64_digits_exact:
  assumes "\<forall>d \<in> set (row_digits ktr tk fcs r). d < 2 ^ 53"
  shows "f64_digits ktr tk fcs r = row_digits ktr tk fcs r"
  unfolding f64_digits_fitted row_digits_fitted
proof (rule map_cong [OF refl])
  fix c assume "c \<in> set (fitted_columns tk fcs)"
  let ?k = "int (ktr (the (discretizers tk c)) (vals r c))"
  let ?n = "int (length (special_tokens tk))"
  from \<open>c \<in> set (fitted_columns tk fcs)\<close> assms have lt: "?k + ?n < 2 ^ 53"
    by (simp add: row_digits_fitted)
  then have "round_f64 ?k = ?k" "round_f64 ?n = ?n" "round_f64 (?k + ?n) = ?k + ?n"
    by (intro round_f64_small, simp)+
  then show "round_f64 (round_f64 ?k + round_f64 ?n) = ?k + ?n" by simp
qed

lemma row_token_exact:
  assumes "0 < n_bins tk" "radix tk < 2 ^ 53" "spec_token ktr tk fcs r < 2 ^ 53"
  shows "row_token ktr tk fcs r = spec_token ktr tk fcs r"
proof -
  from assms(1) have b: "1 \<le> radix tk" by (simp add: radix_def)
  have nn: "\<forall>d \<in> set (row_digits ktr tk fcs r). 0 \<le> d"
    by (auto simp: row_digits_fitted)
  from assms(3) have "mixed_radix (radix tk) (row_digits ktr tk fcs r) < 2 ^ 53"
    by (simp only: spec_token_def)
  from f64_accumulate_exact [OF b assms(2) nn this]
  have acc: "f64_accumulate (radix tk) (row_digits ktr tk fcs r)
               = mixed_radix (radix tk) (row_digits ktr tk fcs r)"
    and small: "\<forall>d \<in> set (row_digits ktr tk fcs r). d < 2 ^ 53" by simp_all
  from small have "f64_digits ktr tk fcs r = row_digits ktr tk fcs r" by (rule f64_digits_exact)
  with acc show ?thesis by (simp only: row_token_def spec_token_def)
qed

subsection \<open>The loops over symbols\<close>

lemma set_unique [simp]: "set (unique xs) = set xs"
  by (induction xs rule: unique.induct) auto

lemma distinct_unique: "distinct (unique xs)"
  by (induction xs rule: unique.induct) auto

lemma unique_Nil_iff [simp]: "(unique xs = []) = (xs = [])"
  by (cases xs) auto

lemma unique_single:
  "xs \<noteq> [] \<Longrightarrow> \<forall>x \<in> set xs. x = s \<Longrightarrow> unique xs = [s]"
proof (cases xs)
  case Nil
  assume "xs \<noteq> []" with Nil show ?thesis by simp
next
  case (Cons y ys)
  assume all: "\<forall>x \<in> set xs. x = s"
  with Cons have "y = s" by simp
  moreover have "filter (\<lambda>z. z \<noteq> s) ys = []"
    using all Cons by (auto simp: filter_empty_conv)
  ultimately show ?thesis using Cons by simp
qed

lemma windows_map: "windows n (map f xs) = map (map f) (windows n xs)"
  by (simp add: windows_def take_map drop_map)

lemma symbol_sequences_char:
  "symbol_sequences ktr tk data fcs L s =
     (if \<not> set (fitted_columns tk fcs) \<subseteq> set (columns data) then Inl KeyError
      else if fitted_columns tk fcs = [] then Inl IndexError
      else if L = 0 then Inl ValueError
      else Inr (windows L (map (row_token ktr tk fcs) (symbol_rows data s))))"
proof (cases "L = 0")
  case True
  then show ?thesis
    by (simp add: symbol_sequences_def symbol_tokens_char split_sequences_def)
next
  case False
  then have "0 < L" by simp
  then show ?thesis
    by (simp add: symbol_sequences_def symbol_tokens_char split_sequences_eq windows_def)
qed

lemma transform_loop_char:
  "transform_loop ktr tk data fcs L ss =
     (if ss = [] then Inr []
      else if \<not> set (fitted_columns tk fcs) \<subseteq> set (columns data) then Inl KeyError
      else if fitted_columns tk fcs = [] then Inl IndexError
      else if L = 0 then Inl ValueError
      else Inr (concat (map (\<lambda>s. windows L (map (row_token ktr tk fcs) (symbol_rows data s))) ss)))"
  by (induction ss) (simp_all add: symbol_sequences_char)

lemma transform_char:
  "transform ktr tk data fcs L =
     (if rows data = [] then Inr []
      else if \<not> set (fitted_columns tk fcs) \<subseteq> set (columns data) then Inl KeyError
      else if fitted_columns tk fcs = [] then Inl IndexError
      else if L = 0 then Inl ValueError
      else Inr (concat (map (\<lambda>s. windows L (map (row_token ktr tk fcs) (symbol_rows data s)))
                          (unique (map symbol (rows data))))))"
  by (simp add: transform_def transform_loop_char)

lemma symbol_pairs_char:
  "symbol_pairs data fcs L P S s =
     (if \<not> set fcs \<subseteq> set (columns data) then Inl KeyError
      else if S = 0 then Inl ValueError
      else Inr (map (pair_at L P S (map (\<lambda>r. map (vals r) fcs) (symbol_rows data s)))
                  [0..<n_pairs (length (symbol_rows data s)) L P S]))"
  by (simp add: symbol_pairs_def py_range_eq n_pairs_def pair_at_def o_def nat_mult_distrib Let_def)

lemma pairs_loop_char:
  "pairs_loop data fcs L P S ss =
     (if ss = [] then Inr []
      else if \<not> set fcs \<subseteq> set (columns data) then Inl KeyError
      else if S = 0 then Inl ValueError
      else Inr (concat (map (\<lambda>s. map (pair_at L P S (map (\<lambda>r. map (vals r) fcs) (symbol_rows data s)))
                                    [0..<n_pairs (length (symbol_rows data s)) L P S]) ss)))"
  by (induction ss) (simp_all add: symbol_pairs_char)

lemma symbol_rows_single:
  "\<forall>r \<in> set (rows data). symbol r = s \<Longrightarrow> symbol_rows data s = sort_key timestamp (rows data)"
  by (simp add: symbol_rows_def)

lemma n_pairs_lt: "K \<le> L + P \<Longrightarrow> 0 < S \<Longrightarrow> n_pairs K L P S = 0"
proof -
  assume K: "K \<le> L + P" and S: "0 < S"
  then have "int K - int L - int P + int S - 1 \<le> int S - 1" by simp
  then have "(int K - int L - int P + int S - 1) div int S \<le> (int S - 1) div int S"
    using S by (intro zdiv_mono1) simp_all
  also have "(int S - 1) div int S = 0"
    using S by simp
  finally show ?thesis by (simp add: n_pairs_def)
qed

lemma n_pairs_ge: "L + P \<le> K \<Longrightarrow> 0 < S \<Longrightarrow> n_pairs K L P S = (K - L - P + S - 1) div S"
proof -
  assume K: "L + P \<le> K" and S: "0 < S"
  then have "int K - int L - int P = int (K - L - P)" by simp
  then have "n_pairs K L P S = nat ((int (K - L - P) + int S - 1) div int S)"
    by (simp add: n_pairs_def)
  then show ?thesis using S by (simp add: ceil_div_nat)
qed

section \<open>Training pairs: the claims\<close>

lemma create_sequences_single:
  assumes "rows data \<noteq> []" and "\<forall>r \<in> set (rows data). symbol r = s"
    and "set fcs \<subseteq> set (columns data)" and "0 < S"
  shows "create_sequences_for_training data fcs L P S =
           (let features = map (\<lambda>r. map (vals r) fcs) (sort_key timestamp (rows data));
                ks = [0..<n_pairs (length (rows data)) L P S]
            in Inr (map (\<lambda>k. take L (drop (k * S) features)) ks,
                    map (\<lambda>k. take P (drop (k * S + L) features)) ks))"
proof -
  have "unique (map symbol (rows data)) = [s]"
    using assms(1,2) by (intro unique_single) auto
  then show ?thesis
    using assms
    by (simp add: create_sequences_for_training_def pairs_loop_char symbol_rows_single
        pair_at_def o_def Let_def)
qed

lemma ceil_div_eq:
  "0 < (S::nat) \<Longrightarrow> (n + S - 1) div S = (if S dvd n then n div S else n div S + 1)"
proof -
  assume S: "0 < S"
  have n: "n = n div S * S + n mod S" by simp
  show ?thesis
  proof (cases "n mod S = 0")
    case True
    then have "n + S - 1 = (S - 1) + n div S * S" using S n by simp
    then have "(n + S - 1) div S = (S - 1) div S + n div S"
      using S by (simp only: div_mult_self1)
    with True S show ?thesis by (simp add: dvd_eq_mod_eq_0)
  next
    case False
    define q where "q = n div S"
    from False obtain m where m: "n mod S = Suc m" by (cases "n mod S") auto
    with n have "n = q * S + Suc m" by (simp add: q_def)
    then have "n + S - 1 = m + (q + 1) * S" by simp
    then have "(n + S - 1) div S = m div S + (q + 1)"
      using S by (simp only: div_mult_self1)
    moreover have "m < S"
      using S m by (metis Suc_lessD mod_less_divisor)
    ultimately show ?thesis using False by (simp add: dvd_eq_mod_eq_0 q_def)
  qed
qed

lemma n_pairs_claimed_count:
  assumes "L + P \<le> K" and "0 < S"
  shows "(n_pairs K L P S = (K - L - P) div S + 1) = (\<not> S dvd (K - L - P))"
proof -
  have "n_pairs K L P S = (K - L - P + S - 1) div S"
    using assms by (rule n_pairs_ge)
  also have "\<dots> = (if S dvd (K - L - P) then (K - L - P) div S else (K - L - P) div S + 1)"
    using assms(2) by (rule ceil_div_eq)
  finally show ?thesis by simp
qed

lemma create_sequences_count:
  assumes "rows data \<noteq> []" and "\<forall>r \<in> set (rows data). symbol r = s"
    and "set fcs \<subseteq> set (columns data)" and "0 < S"
  shows "\<exists>ins tgts. create_sequences_for_training data fcs L P S = Inr (ins, tgts)
           \<and> length ins = n_pairs (length (rows data)) L P S
           \<and> length tgts = n_pairs (length (rows data)) L P S"
  using create_sequences_single [OF assms, of L P] by (simp add: Let_def)

lemma series_symbols: "\<forall>r \<in> set (rows (series s n)). symbol r = s"
  by (auto simp: series_def series_row_def)

lemma series_rows_nonempty: "0 < n \<Longrightarrow> rows (series s n) \<noteq> []"
  by (simp add: series_def)

text \<open>
  C1. The loop \<open>range(0, K - L - P, S)\<close> stops before the offset \<open>K - L - P\<close>. On a
  single-symbol frame of exactly \<open>L + P = 522\<close> rows, with the default parameters, no
  training pair is produced although one complete input/target pair fits and the
  specification's count \<open>floor((K - L - P) / S) + 1\<close> is one.
\<close>

theorem training_pairs_exact_fit:
  "create_sequences_for_training (series ''TCS'' 522) [''close''] 512 10 256 = Inr ([], [])
   \<and> (522 - 512 - 10) div 256 + 1 = (1::nat)"
proof -
  have "n_pairs (length (rows (series ''TCS'' 522))) 512 10 256 = 0"
    by (simp add: n_pairs_def series_def)
  moreover have "rows (series ''TCS'' 522) \<noteq> []"
    by (rule series_rows_nonempty) simp
  moreover have "set [''close''] \<subseteq> set (columns (series ''TCS'' 522))"
    by (simp add: series_def)
  ultimately show ?thesis
    using create_sequences_single [OF _ series_symbols, of "''TCS''" 522 "[''close'']" 256 512 10]
    by (simp add: Let_def)
qed

text \<open>
  C4. On a single-symbol frame of 600 rows, with \<open>sequence_length = 512\<close>,
  \<open>prediction_length = 10\<close> and \<open>stride = 256\<close>, exactly one training pair is produced:
  its input window is rows 0 to 511 and its target window rows 512 to 521 of the rows
  sorted by timestamp.
\<close>

theorem training_pairs_600:
  assumes "length (rows data) = 600" and "\<forall>r \<in> set (rows data). symbol r = s"
    and "set fcs \<subseteq> set (columns data)"
  shows "create_sequences_for_training data fcs 512 10 256 =
           (let features = map (\<lambda>r. map (vals r) fcs) (sort_key timestamp (rows data))
            in Inr ([take 512 features], [take 10 (drop 512 features)]))"
proof -
  have "n_pairs (length (rows data)) 512 10 256 = 1"
    using assms(1) by (simp add: n_pairs_def)
  moreover have "rows data \<noteq> []" using assms(1) by auto
  ultimately show ?thesis
    using create_sequences_single [OF _ assms(2,3), of 256 512 10]
    by (simp add: Let_def)
qed

theorem training_pairs_600_witness:
  "length (rows (series ''TCS'' 600)) = 600
   \<and> set [''close''] \<subseteq> set (columns (series ''TCS'' 600))
   \<and> create_sequences_for_training (series ''TCS'' 600) [''close''] 512 10 256 =
       (let features = map (\<lambda>r. map (vals r) [''close''])
                         (sort_key timestamp (rows (series ''TCS'' 600)))
        in Inr ([take 512 features], [take 10 (drop 512 features)]))"
proof -
  have len: "length (rows (series ''TCS'' 600)) = 600" by (simp add: series_def)
  have cols: "set [''close''] \<subseteq> set (columns (series ''TCS'' 600))" by (simp add: series_def)
  show ?thesis
    using len cols training_pairs_600 [OF len series_symbols cols] by blast
qed

subsection \<open>The example evaluated\<close>

lemma example_tokenizer_fields:
  "n_bins example_tokenizer = 1000"
  "length (special_tokens example_tokenizer) = 5"
  "discretizers example_tokenizer = [''open'' \<mapsto> [10, 20, 30], ''close'' \<mapsto> [10, 20, 30]]"
  by (simp_all add: example_tokenizer_def init_def default_special_tokens_def)

lemma example_frame_fields:
  "columns example_frame = [''open'', ''close'']"
  "rows example_frame \<noteq> []"
  "unique (map symbol (rows example_frame)) = [''TCS'', ''INFY'']"
  "symbol_rows example_frame ''TCS'' =
     [quote ''TCS'' 1 25 35, quote ''TCS'' 2 15 5, quote ''TCS'' 3 5 25, quote ''TCS'' 4 5 5,
      quote ''TCS'' 5 35 35]"
  "symbol_rows example_frame ''INFY'' =
     [quote ''INFY'' 1 5 5, quote ''INFY'' 2 15 25, quote ''INFY'' 3 35 15]"
  by (simp_all add: example_frame_def quote_def symbol_rows_def)

lemmas example_defs =
  example_tokenizer_fields example_frame_fields quote_def edges_transform_def

lemma example_fitted:
  "fitted_columns example_tokenizer [''open'', ''volume'', ''close''] = [''open'', ''close'']"
  by (simp add: fitted_columns_def example_tokenizer_fields)

lemma example_tokens:
  "symbol_tokens edges_transform example_tokenizer example_frame [''open'', ''volume'', ''close''] ''TCS''
     = Inr [7043, 6035, 5032, 5030, 8048]"
  by (simp add: symbol_tokens_char example_fitted row_token_def f64_accumulate_def round_f64_small radix_def
      f64_digits_def example_defs)

lemma example_transform:
  "transform edges_transform example_tokenizer example_frame [''open'', ''volume'', ''close''] 2
     = Inr [[7043, 6035], [5032, 5030], [5030, 6037]]"
  by (simp add: transform_char example_fitted row_token_def f64_accumulate_def round_f64_small radix_def
      f64_digits_def windows_def example_defs upt_rec)

lemma example_pairs:
  "create_sequences_for_training example_frame [''open'', ''close''] 2 1 1
     = Inr ([[[25, 35], [15, 5]], [[15, 5], [5, 25]]], [[[5, 25]], [[5, 5]]])"
  by (simp add: create_sequences_for_training_def pairs_loop_char pair_at_def n_pairs_def
      example_defs upt_rec)


lemma example_symbol_sequences:
  "symbol_sequences edges_transform example_tokenizer example_frame [''open'', ''volume'', ''close''] 2 ''TCS''
     = Inr [[7043, 6035], [5032, 5030]]"
  by (simp add: symbol_sequences_char example_fitted row_token_def f64_accumulate_def round_f64_small radix_def
      f64_digits_def windows_def example_defs upt_rec)


lemma example_three_columns:
  "symbol_tokens edges_transform
     (example_tokenizer\<lparr>discretizers := (discretizers example_tokenizer)(''volume'' \<mapsto> [10, 20, 30])\<rparr>)
     (example_frame\<lparr>columns := [''open'', ''close'', ''volume'']\<rparr>)
     [''open'', ''close'', ''volume''] ''INFY''
   = Inr [5055155, 6067192, 8086236]"
  by (simp add: symbol_tokens_char fitted_columns_def row_token_def f64_accumulate_def round_f64_small radix_def
      f64_digits_def symbol_rows_def example_defs example_frame_def)


text \<open>
  A double does not hold \<open>2 ^ 53 + 1\<close>: with that many special tokens the offset itself
  is rounded, and a token can be smaller than the number of special tokens.
\<close>

lemma round_f64_ties_to_even:
  "round_f64 (2 ^ 53 + 1) = 2 ^ 53" "round_f64 (2 ^ 53 + 3) = 2 ^ 53 + 4"
  by (simp_all add: round_f64_def ulp_from_step ulp_from_stop Let_def)

lemma long_special_tokens:
  "symbol_tokens edges_transform
     (example_tokenizer\<lparr>special_tokens := replicate (2 ^ 53 + 1) (''pad'', 0)\<rparr>)
     example_frame [''open''] ''INFY''
   = Inr [2 ^ 53, 2 ^ 53, 2 ^ 53 + 4]"
  by (simp add: symbol_tokens_char fitted_columns_def row_token_def f64_accumulate_def
      f64_digits_def example_defs example_tokenizer_def init_def)
    (simp add: round_f64_def ulp_from_step ulp_from_stop Let_def)

text \<open>The six columns: the digits of the two rows, their mixed-radix numbers and their tokens.\<close>

lemma filter_le_upt: "filter (\<lambda>m. m \<le> k) [Suc 0..<n] = [Suc 0..<min (Suc k) n]"
  by (induction n) (auto simp: min_def)

lemma thousand_bins_index: "edges_transform thousand_bins (of_nat k) = min k 999"
proof -
  have "filter (\<lambda>e. e \<le> (of_nat k :: rat)) (map of_nat [1..<1000])
          = map of_nat (filter (\<lambda>m. m \<le> k) [1..<1000])"
    by (simp add: filter_map o_def)
  then show ?thesis
    by (simp add: edges_transform_def thousand_bins_def filter_le_upt)
qed

lemma thousand_bins_values:
  "edges_transform thousand_bins 999 = 999" "edges_transform thousand_bins 995 = 995"
  using thousand_bins_index [of 999] thousand_bins_index [of 995] by simp_all

lemma six_tokenizer_fields:
  "n_bins six_tokenizer = 1000"
  "length (special_tokens six_tokenizer) = 5"
  "radix six_tokenizer = 1005"
  "fitted_columns six_tokenizer six_columns = six_columns"
  "six_columns \<noteq> []"
  by (simp_all add: six_tokenizer_def init_def default_special_tokens_def fitted_columns_def
      radix_def six_columns_def)

lemma six_frame_fields:
  "columns six_frame = six_columns"
  "rows six_frame \<noteq> []"
  "unique (map symbol (rows six_frame)) = [''TCS'']"
  "symbol_rows six_frame ''TCS'' = [flat_row 1 999, flat_row 2 995]"
  by (simp_all add: six_frame_def symbol_rows_def flat_row_def)

lemma six_digits:
  "row_digits edges_transform six_tokenizer six_columns (flat_row t 999)
     = [1004, 1004, 1004, 1004, 1004, 1004]"
  "row_digits edges_transform six_tokenizer six_columns (flat_row t 995)
     = [1004, 1004, 1004, 1004, 1004, 1000]"
  "f64_digits edges_transform six_tokenizer six_columns (flat_row t 999)
     = [1004, 1004, 1004, 1004, 1004, 1004]"
  "f64_digits edges_transform six_tokenizer six_columns (flat_row t 995)
     = [1004, 1004, 1004, 1004, 1004, 1000]"
  by (simp_all add: row_digits_def f64_digits_def round_f64_small six_tokenizer_def init_def
      default_special_tokens_def six_columns_def flat_row_def thousand_bins_values)

lemma six_spec_tokens:
  "spec_token edges_transform six_tokenizer six_columns (flat_row t 999) = 1030377509393765624"
  "spec_token edges_transform six_tokenizer six_columns (flat_row t 995) = 1030377509393765620"
  by (simp_all add: spec_token_def six_digits six_tokenizer_fields mixed_radix_def)

lemma six_row_tokens:
  "row_token edges_transform six_tokenizer six_columns (flat_row t 999) = 1030377509393765632"
  "row_token edges_transform six_tokenizer six_columns (flat_row t 995) = 1030377509393765632"
  by (simp_all add: row_token_def six_digits six_tokenizer_fields f64_accumulate_def)
    (simp_all add: round_f64_def ulp_from_step ulp_from_stop Let_def)

section \<open>The tokenizer: the claims\<close>

lemma symbol_rows_symbol: "r \<in> set (symbol_rows data s) \<Longrightarrow> symbol r = s"
  by (auto simp: symbol_rows_def)

lemma symbol_rows_sorted: "sorted (map timestamp (symbol_rows data s))"
  by (simp add: symbol_rows_def)

lemma sorted_slice: "sorted (map f xs) \<Longrightarrow> sorted (map f (take n (drop i xs)))"
  by (simp add: take_map [symmetric] drop_map [symmetric])

lemma sorted_slice2:
  "sorted (map f xs) \<Longrightarrow> sorted (map f (take n (drop i xs) @ take m (drop (i + n) xs)))"
proof -
  assume s: "sorted (map f xs)"
  have "take n (drop i xs) @ take m (drop (i + n) xs) = take (n + m) (drop i xs)"
    by (subst take_add) (simp add: add.commute)
  with s show ?thesis by (simp only: sorted_slice)
qed

lemma length_init_special: "length (special_tokens (init nb vs)) = 5"
  by (simp add: init_def default_special_tokens_def)

text \<open>
  C2. For every feature row \<open>transform\<close> starts from 0 and sets, for each fitted column in
  column order, \<open>token = token * (n_bins + |special_tokens|) + (bin + |special_tokens|)\<close>, so
  that the token is the mixed-radix number of the row's offset bins, the first column the
  most significant digit. The loop is the one of the claim, but it runs on doubles, and a
  mixed-radix number of 1000-bin digits needs more than 53 bits from the sixth column on.
  With six fitted columns of 1000 bins and the two rows of \<open>six_frame\<close>, whose bins are
  999 in every column but the last, where they are 999 and 995, \<open>transform\<close> returns the
  same token twice, 1030377509393765632, which is the mixed-radix number of neither row:
  these are 1030377509393765624 and 1030377509393765620. (Lemma \<open>row_token_exact\<close>: as
  long as the mixed-radix number is below \<open>2 ^ 53\<close> the token is that number.)
\<close>

theorem six_columns_tokens_collide:
  "transform edges_transform six_tokenizer six_frame six_columns 2
     = Inr [[1030377509393765632, 1030377509393765632]]
   \<and> map (spec_token edges_transform six_tokenizer six_columns) (symbol_rows six_frame ''TCS'')
     = [1030377509393765624, 1030377509393765620]"
  by (simp add: transform_char six_tokenizer_fields six_frame_fields windows_def upt_rec
      six_row_tokens six_spec_tokens)

text \<open>
  C5. The composite tokens of a symbol, \<open>N\<close> of them, are cut into the consecutive windows
  at offsets \<open>0, sequence_length, 2 * sequence_length, ...\<close>: there are
  \<open>N div sequence_length\<close> of them, each of exactly \<open>sequence_length\<close> tokens, and a
  shorter trailing rest is not emitted. \<open>transform\<close> returns these windows, symbol after
  symbol.
\<close>

theorem token_windows_chunking:
  assumes "symbol_tokens ktr tk data fcs s = Inr toks" and "0 < L"
  shows "symbol_sequences ktr tk data fcs L s =
           Inr (map (\<lambda>k. take L (drop (k * L) toks)) [0..<length toks div L])
         \<and> length (map (\<lambda>k. take L (drop (k * L) toks)) [0..<length toks div L])
             = length toks div L
         \<and> (\<forall>w \<in> set (map (\<lambda>k. take L (drop (k * L) toks)) [0..<length toks div L]).
               length w = L)
         \<and> (length toks mod L \<noteq> 0 \<longrightarrow>
               drop (length toks div L * L) toks
                 \<notin> set (map (\<lambda>k. take L (drop (k * L) toks)) [0..<length toks div L]))
         \<and> transform ktr tk data fcs L =
             Inr (concat (map (\<lambda>s'. windows L (map (row_token ktr tk fcs) (symbol_rows data s')))
                            (unique (map symbol (rows data)))))
         \<and> toks = map (row_token ktr tk fcs) (symbol_rows data s)"
proof -
  let ?ws = "map (\<lambda>k. take L (drop (k * L) toks)) [0..<length toks div L]"
  have seqs: "symbol_sequences ktr tk data fcs L s = Inr ?ws"
    using assms by (simp add: symbol_sequences_def split_sequences_eq)
  have len: "\<forall>w \<in> set ?ws. length w = L"
  proof
    fix w assume "w \<in> set ?ws"
    then obtain k where k: "k < length toks div L" and w: "w = take L (drop (k * L) toks)"
      by auto
    from k assms(2) have "Suc k * L \<le> length toks"
      by (simp add: Suc_le_eq [symmetric] less_eq_div_iff_mult_less_eq del: mult_Suc)
    with w show "length w = L" by auto
  qed
  have part: "length toks mod L \<noteq> 0 \<longrightarrow> drop (length toks div L * L) toks \<notin> set ?ws"
  proof
    assume "length toks mod L \<noteq> 0"
    have "length (drop (length toks div L * L) toks) = length toks mod L"
      by (simp add: minus_div_mult_eq_mod)
    moreover have "length toks mod L < L" using assms(2) by simp
    ultimately show "drop (length toks div L * L) toks \<notin> set ?ws"
      using len by (metis less_irrefl)
  qed
  have ok: "set (fitted_columns tk fcs) \<subseteq> set (columns data) \<and> fitted_columns tk fcs \<noteq> []"
    using assms(1) by (auto simp: symbol_tokens_char split: if_splits)
  then have toks: "toks = map (row_token ktr tk fcs) (symbol_rows data s)"
    using assms(1) by (simp add: symbol_tokens_char)
  have tr: "transform ktr tk data fcs L =
             Inr (concat (map (\<lambda>s'. windows L (map (row_token ktr tk fcs) (symbol_rows data s')))
                            (unique (map symbol (rows data)))))"
    using ok assms(2) by (simp add: transform_char)
  from seqs len part tr toks show ?thesis by simp
qed

theorem token_windows_chunking_witness:
  "symbol_tokens edges_transform example_tokenizer example_frame [''open'', ''volume'', ''close''] ''TCS''
     = Inr [7043, 6035, 5032, 5030, 8048]
   \<and> (0::nat) < 2
   \<and> symbol_sequences edges_transform example_tokenizer example_frame
        [''open'', ''volume'', ''close''] 2 ''TCS''
        = Inr [[7043, 6035], [5032, 5030]]
   \<and> length [7043, 6035, 5032, 5030, 8048 :: int] div 2 = 2
   \<and> [8048] \<notin> set [[7043, 6035], [5032, 5030 :: int]]"
proof -
  have two: "(0::nat) < 2" by simp
  from token_windows_chunking [OF example_tokens two]
  have "symbol_sequences edges_transform example_tokenizer example_frame
          [''open'', ''volume'', ''close''] 2 ''TCS''
        = Inr (map (\<lambda>k. take 2 (drop (k * 2) [7043, 6035, 5032, 5030, 8048])) [0..<length [7043, 6035, 5032, 5030, 8048 :: int] div 2])"
    by blast
  then have "symbol_sequences edges_transform example_tokenizer example_frame
          [''open'', ''volume'', ''close''] 2 ''TCS'' = Inr [[7043, 6035], [5032, 5030]]"
    by (simp add: upt_rec)
  with example_tokens show ?thesis by simp
qed

lemma transform_window_origin:
  assumes "transform ktr tk data fcs L = Inr ws" and "w \<in> set ws"
  shows "\<exists>s k. w = map (row_token ktr tk fcs) (take L (drop (k * L) (symbol_rows data s)))"
proof (cases "rows data = []")
  case True
  with assms show ?thesis by (simp add: transform_char)
next
  case False
  with assms(1) have "ws = concat (map (\<lambda>s. windows L (map (row_token ktr tk fcs) (symbol_rows data s)))
                                  (unique (map symbol (rows data))))"
    by (simp add: transform_char split: if_splits)
  with assms(2) obtain s where "w \<in> set (windows L (map (row_token ktr tk fcs) (symbol_rows data s)))"
    by auto
  then obtain k where "w = take L (drop (k * L) (map (row_token ktr tk fcs) (symbol_rows data s)))"
    by (auto simp: windows_def)
  then have "w = map (row_token ktr tk fcs) (take L (drop (k * L) (symbol_rows data s)))"
    by (simp add: take_map drop_map)
  then show ?thesis by blast
qed

lemma training_pair_origin:
  assumes "create_sequences_for_training data fcs L P S = Inr (ins, tgts)"
  shows "length ins = length tgts \<and>
         (\<forall>j < length ins. \<exists>s i.
            ins ! j = map (\<lambda>r. map (vals r) fcs) (take L (drop i (symbol_rows data s))) \<and>
            tgts ! j = map (\<lambda>r. map (vals r) fcs) (take P (drop (i + L) (symbol_rows data s))))"
proof -
  from assms obtain ps where
    loop: "pairs_loop data fcs L P S (unique (map symbol (rows data))) = Inr ps"
    and ins: "ins = map fst ps" and tgts: "tgts = map snd ps"
    by (auto simp: create_sequences_for_training_def split: sum.splits)
  have origin: "\<exists>s i. p = (map (\<lambda>r. map (vals r) fcs) (take L (drop i (symbol_rows data s))),
                           map (\<lambda>r. map (vals r) fcs) (take P (drop (i + L) (symbol_rows data s))))"
    if "p \<in> set ps" for p
  proof (cases "rows data = []")
    case True
    with loop that show ?thesis by (simp add: pairs_loop_char)
  next
    case False
    with loop have "ps = concat (map (\<lambda>s. map (pair_at L P S (map (\<lambda>r. map (vals r) fcs) (symbol_rows data s)))
                                    [0..<n_pairs (length (symbol_rows data s)) L P S])
                             (unique (map symbol (rows data))))"
      by (simp add: pairs_loop_char split: if_splits)
    with that obtain s k where "p = pair_at L P S (map (\<lambda>r. map (vals r) fcs) (symbol_rows data s)) k"
      by auto
    then have "p = (map (\<lambda>r. map (vals r) fcs) (take L (drop (k * S) (symbol_rows data s))),
                    map (\<lambda>r. map (vals r) fcs) (take P (drop (k * S + L) (symbol_rows data s))))"
      by (simp add: pair_at_def take_map drop_map)
    then show ?thesis by blast
  qed
  have "\<exists>s i. ins ! j = map (\<lambda>r. map (vals r) fcs) (take L (drop i (symbol_rows data s))) \<and>
               tgts ! j = map (\<lambda>r. map (vals r) fcs) (take P (drop (i + L) (symbol_rows data s)))"
    if "j < length ins" for j
  proof -
    from that ins have "ps ! j \<in> set ps" by simp
    from origin [OF this] obtain s i where
      "ps ! j = (map (\<lambda>r. map (vals r) fcs) (take L (drop i (symbol_rows data s))),
                 map (\<lambda>r. map (vals r) fcs) (take P (drop (i + L) (symbol_rows data s))))"
      by blast
    with that ins tgts show ?thesis by auto
  qed
  with ins tgts show ?thesis by simp
qed

lemma slice_symbol: "r \<in> set (take n (drop i (symbol_rows data s))) \<Longrightarrow> symbol r = s"
  by (meson in_set_dropD in_set_takeD symbol_rows_symbol)

text \<open>
  C3. Every token window returned by \<open>transform\<close> and every input/target pair returned by
  \<open>create_sequences_for_training\<close> is cut out of \<open>symbol_rows data s\<close> for one symbol
  \<open>s\<close>: all its rows carry that symbol and they are in ascending timestamp order.
\<close>

theorem windows_within_one_symbol:
  "(transform ktr tk data fcs L = Inr ws \<longrightarrow>
      (\<forall>w \<in> set ws. \<exists>s k.
         w = map (row_token ktr tk fcs) (take L (drop (k * L) (symbol_rows data s))) \<and>
         (\<forall>r \<in> set (take L (drop (k * L) (symbol_rows data s))). symbol r = s) \<and>
         sorted (map timestamp (take L (drop (k * L) (symbol_rows data s))))))
   \<and> (create_sequences_for_training data fcs' L' P S = Inr (ins, tgts) \<longrightarrow>
        length ins = length tgts \<and>
        (\<forall>j < length ins. \<exists>s i.
           ins ! j = map (\<lambda>r. map (vals r) fcs') (take L' (drop i (symbol_rows data s))) \<and>
           tgts ! j = map (\<lambda>r. map (vals r) fcs') (take P (drop (i + L') (symbol_rows data s))) \<and>
           (\<forall>r \<in> set (take L' (drop i (symbol_rows data s))
                        @ take P (drop (i + L') (symbol_rows data s))). symbol r = s) \<and>
           sorted (map timestamp (take L' (drop i (symbol_rows data s))
                                  @ take P (drop (i + L') (symbol_rows data s))))))"
proof (intro conjI impI)
  assume tr: "transform ktr tk data fcs L = Inr ws"
  show "\<forall>w \<in> set ws. \<exists>s k.
         w = map (row_token ktr tk fcs) (take L (drop (k * L) (symbol_rows data s))) \<and>
         (\<forall>r \<in> set (take L (drop (k * L) (symbol_rows data s))). symbol r = s) \<and>
         sorted (map timestamp (take L (drop (k * L) (symbol_rows data s))))"
  proof
    fix w assume "w \<in> set ws"
    from transform_window_origin [OF tr this] obtain s k where
      "w = map (row_token ktr tk fcs) (take L (drop (k * L) (symbol_rows data s)))" by blast
    moreover have "\<forall>r \<in> set (take L (drop (k * L) (symbol_rows data s))). symbol r = s"
      by (auto dest: slice_symbol)
    moreover have "sorted (map timestamp (take L (drop (k * L) (symbol_rows data s))))"
      by (rule sorted_slice) (rule symbol_rows_sorted)
    ultimately show "\<exists>s k.
         w = map (row_token ktr tk fcs) (take L (drop (k * L) (symbol_rows data s))) \<and>
         (\<forall>r \<in> set (take L (drop (k * L) (symbol_rows data s))). symbol r = s) \<and>
         sorted (map timestamp (take L (drop (k * L) (symbol_rows data s))))"
      by blast
  qed
next
  assume cs: "create_sequences_for_training data fcs' L' P S = Inr (ins, tgts)"
  from training_pair_origin [OF cs] show "length ins = length tgts" by simp
next
  assume cs: "create_sequences_for_training data fcs' L' P S = Inr (ins, tgts)"
  show "\<forall>j < length ins. \<exists>s i.
           ins ! j = map (\<lambda>r. map (vals r) fcs') (take L' (drop i (symbol_rows data s))) \<and>
           tgts ! j = map (\<lambda>r. map (vals r) fcs') (take P (drop (i + L') (symbol_rows data s))) \<and>
           (\<forall>r \<in> set (take L' (drop i (symbol_rows data s))
                        @ take P (drop (i + L') (symbol_rows data s))). symbol r = s) \<and>
           sorted (map timestamp (take L' (drop i (symbol_rows data s))
                                  @ take P (drop (i + L') (symbol_rows data s))))"
  proof (intro allI impI)
    fix j assume "j < length ins"
    with training_pair_origin [OF cs] obtain s i where
      io: "ins ! j = map (\<lambda>r. map (vals r) fcs') (take L' (drop i (symbol_rows data s)))"
          "tgts ! j = map (\<lambda>r. map (vals r) fcs') (take P (drop (i + L') (symbol_rows data s)))"
      by blast
    have "\<forall>r \<in> set (take L' (drop i (symbol_rows data s))
                        @ take P (drop (i + L') (symbol_rows data s))). symbol r = s"
      by (auto dest: slice_symbol)
    moreover have "sorted (map timestamp (take L' (drop i (symbol_rows data s))
                                  @ take P (drop (i + L') (symbol_rows data s))))"
      by (rule sorted_slice2) (rule symbol_rows_sorted)
    ultimately show "\<exists>s i.
           ins ! j = map (\<lambda>r. map (vals r) fcs') (take L' (drop i (symbol_rows data s))) \<and>
           tgts ! j = map (\<lambda>r. map (vals r) fcs') (take P (drop (i + L') (symbol_rows data s))) \<and>
           (\<forall>r \<in> set (take L' (drop i (symbol_rows data s))
                        @ take P (drop (i + L') (symbol_rows data s))). symbol r = s) \<and>
           sorted (map timestamp (take L' (drop i (symbol_rows data s))
                                  @ take P (drop (i + L') (symbol_rows data s))))"
      using io by blast
  qed
qed

theorem windows_within_one_symbol_witness:
  "transform edges_transform example_tokenizer example_frame [''open'', ''volume'', ''close''] 2
     = Inr [[7043, 6035], [5032, 5030], [5030, 6037]]
   \<and> create_sequences_for_training example_frame [''open'', ''close''] 2 1 1
       = Inr ([[[25, 35], [15, 5]], [[15, 5], [5, 25]]], [[[5, 25]], [[5, 5]]])
   \<and> (\<exists>s k. [5030, 6037]
               = map (row_token edges_transform example_tokenizer [''open'', ''volume'', ''close''])
                   (take 2 (drop (k * 2) (symbol_rows example_frame s)))
             \<and> (\<forall>r \<in> set (take 2 (drop (k * 2) (symbol_rows example_frame s))). symbol r = s)
             \<and> sorted (map timestamp (take 2 (drop (k * 2) (symbol_rows example_frame s)))))
   \<and> (\<exists>s i. [[15, 5], [5, 25]]
               = map (\<lambda>r. map (vals r) [''open'', ''close''])
                   (take 2 (drop i (symbol_rows example_frame s)))
             \<and> [[5, 5]]
               = map (\<lambda>r. map (vals r) [''open'', ''close''])
                   (take 1 (drop (i + 2) (symbol_rows example_frame s)))
             \<and> (\<forall>r \<in> set (take 2 (drop i (symbol_rows example_frame s))
                            @ take 1 (drop (i + 2) (symbol_rows example_frame s))). symbol r = s)
             \<and> sorted (map timestamp (take 2 (drop i (symbol_rows example_frame s))
                                      @ take 1 (drop (i + 2) (symbol_rows example_frame s)))))"
proof -
  note both = windows_within_one_symbol
    [of edges_transform example_tokenizer example_frame "[''open'', ''volume'', ''close'']" 2
        "[[7043, 6035], [5032, 5030], [5030, 6037]]" "[''open'', ''close'']" 2 1 1
        "[[[25, 35], [15, 5]], [[15, 5], [5, 25]]]" "[[[5, 25]], [[5, 5]]]"]
  from both example_transform
  have "\<forall>w \<in> set [[7043, 6035], [5032, 5030], [5030, 6037]]. \<exists>s k.
         w = map (row_token edges_transform example_tokenizer [''open'', ''volume'', ''close''])
               (take 2 (drop (k * 2) (symbol_rows example_frame s))) \<and>
         (\<forall>r \<in> set (take 2 (drop (k * 2) (symbol_rows example_frame s))). symbol r = s) \<and>
         sorted (map timestamp (take 2 (drop (k * 2) (symbol_rows example_frame s))))"
    by blast
  then have first: "\<exists>s k. [5030, 6037]
               = map (row_token edges_transform example_tokenizer [''open'', ''volume'', ''close''])
                   (take 2 (drop (k * 2) (symbol_rows example_frame s)))
             \<and> (\<forall>r \<in> set (take 2 (drop (k * 2) (symbol_rows example_frame s))). symbol r = s)
             \<and> sorted (map timestamp (take 2 (drop (k * 2) (symbol_rows example_frame s))))"
    by simp
  from both example_pairs
  have "\<forall>j < length [[[25, 35], [15, 5]], [[15, 5], [5, 25 :: rat]]]. \<exists>s i.
           [[[25, 35], [15, 5]], [[15, 5], [5, 25]]] ! j
             = map (\<lambda>r. map (vals r) [''open'', ''close'']) (take 2 (drop i (symbol_rows example_frame s))) \<and>
           [[[5, 25]], [[5, 5]]] ! j
             = map (\<lambda>r. map (vals r) [''open'', ''close'']) (take 1 (drop (i + 2) (symbol_rows example_frame s))) \<and>
           (\<forall>r \<in> set (take 2 (drop i (symbol_rows example_frame s))
                        @ take 1 (drop (i + 2) (symbol_rows example_frame s))). symbol r = s) \<and>
           sorted (map timestamp (take 2 (drop i (symbol_rows example_frame s))
                                  @ take 1 (drop (i + 2) (symbol_rows example_frame s))))"
    by blast
  from this [rule_format, of 1]
  have second: "\<exists>s i. [[15, 5], [5, 25]]
               = map (\<lambda>r. map (vals r) [''open'', ''close''])
                   (take 2 (drop i (symbol_rows example_frame s)))
             \<and> [[5, 5]]
               = map (\<lambda>r. map (vals r) [''open'', ''close''])
                   (take 1 (drop (i + 2) (symbol_rows example_frame s)))
             \<and> (\<forall>r \<in> set (take 2 (drop i (symbol_rows example_frame s))
                            @ take 1 (drop (i + 2) (symbol_rows example_frame s))). symbol r = s)
             \<and> sorted (map timestamp (take 2 (drop i (symbol_rows example_frame s))
                                      @ take 1 (drop (i + 2) (symbol_rows example_frame s))))"
    by simp
  from example_transform example_pairs first second show ?thesis by blast
qed

lemma list_all2_filter_rel:
  "list_all2 R xs ys \<Longrightarrow> (\<And>x y. R x y \<Longrightarrow> P x = Q y)
     \<Longrightarrow> list_all2 R (filter P xs) (filter Q ys)"
  by (induction rule: list_all2_induct) auto

lemma list_all2_insort_key:
  "list_all2 R xs ys \<Longrightarrow> R x y \<Longrightarrow> (\<And>a b. R a b \<Longrightarrow> f a = g b)
     \<Longrightarrow> list_all2 R (insort_key f x xs) (insort_key g y ys)"
proof (induction rule: list_all2_induct)
  case Nil
  then show ?case by simp
next
  case (Cons a xs b ys)
  have "f a = g b" "f x = g y" using Cons by auto
  with Cons show ?case by auto
qed

lemma list_all2_sort_key:
  "list_all2 R xs ys \<Longrightarrow> (\<And>a b. R a b \<Longrightarrow> f a = g b)
     \<Longrightarrow> list_all2 R (sort_key f xs) (sort_key g ys)"
  by (induction rule: list_all2_induct) (auto intro: list_all2_insort_key)

lemma symbol_rows_rel:
  assumes "list_all2 (same_features fcs) (rows d1) (rows d2)"
  shows "list_all2 (same_features fcs) (symbol_rows d1 s) (symbol_rows d2 s)"
  unfolding symbol_rows_def
  by (intro list_all2_sort_key list_all2_filter_rel assms) (auto simp: same_features_def)

lemma fitted_columns_cong:
  "\<forall>c \<in> set fcs. discretizers tk1 c = discretizers tk2 c
     \<Longrightarrow> fitted_columns tk1 fcs = fitted_columns tk2 fcs"
  by (auto simp: fitted_columns_def intro: filter_cong)

lemma row_token_cong:
  assumes "n_bins tk1 = n_bins tk2"
    and "length (special_tokens tk1) = length (special_tokens tk2)"
    and "\<forall>c \<in> set fcs. discretizers tk1 c = discretizers tk2 c"
    and "same_features fcs r1 r2"
  shows "row_token ktr tk1 fcs r1 = row_token ktr tk2 fcs r2"
proof -
  have "f64_digits ktr tk1 fcs r1 = f64_digits ktr tk2 fcs r2"
    unfolding f64_digits_def using assms(2,3,4)
    by (intro arg_cong [where f = concat] map_cong)
       (auto simp: same_features_def list_all_iff split: option.splits)
  with assms(1,2) show ?thesis by (simp add: row_token_def radix_def)
qed

lemma map_rel_cong:
  "list_all2 R xs ys \<Longrightarrow> (\<And>x y. R x y \<Longrightarrow> f x = g y) \<Longrightarrow> map f xs = map g ys"
  by (induction rule: list_all2_induct) auto

lemma transform_agree:
  assumes "n_bins tk1 = n_bins tk2"
    and "length (special_tokens tk1) = length (special_tokens tk2)"
    and "\<forall>c \<in> set fcs. discretizers tk1 c = discretizers tk2 c"
    and "list_all2 (same_features fcs) (rows d1) (rows d2)"
    and "\<forall>c \<in> set fcs. (c \<in> set (columns d1)) = (c \<in> set (columns d2))"
  shows "transform ktr tk1 d1 fcs L = transform ktr tk2 d2 fcs L"
proof -
  have fitted: "fitted_columns tk1 fcs = fitted_columns tk2 fcs"
    using assms(3) by (rule fitted_columns_cong)
  have "set (fitted_columns tk2 fcs) \<subseteq> set fcs"
    by (auto simp: fitted_columns_def)
  with assms(5) have cols:
    "(set (fitted_columns tk2 fcs) \<subseteq> set (columns d1)) = (set (fitted_columns tk2 fcs) \<subseteq> set (columns d2))"
    by blast
  have empty: "(rows d1 = []) = (rows d2 = [])"
    using assms(4) by (auto dest: list_all2_lengthD)
  have syms: "map symbol (rows d1) = map symbol (rows d2)"
    using assms(4) by (rule map_rel_cong) (simp add: same_features_def)
  have toks: "map (row_token ktr tk1 fcs) (symbol_rows d1 s) = map (row_token ktr tk2 fcs) (symbol_rows d2 s)" for s
    using symbol_rows_rel [OF assms(4)] by (rule map_rel_cong) (rule row_token_cong [OF assms(1,2,3)])
  show ?thesis
    by (simp add: transform_char fitted cols empty syms toks)
qed

text \<open>
  C6. The token sequences of \<open>transform\<close> are determined by the feature rows (symbol,
  timestamp and the values of the feature columns, in row order), the order of the feature
  columns, the discretizers of these columns, the bin count and the number of special
  tokens: two runs that agree on these return the same result, whatever else differs in
  the tokenizer objects or in the frames.
\<close>

theorem transform_deterministic:
  assumes "n_bins tk1 = n_bins tk2"
    and "length (special_tokens tk1) = length (special_tokens tk2)"
    and "\<forall>c \<in> set fcs. discretizers tk1 c = discretizers tk2 c"
    and "list_all2 (same_features fcs) (rows d1) (rows d2)"
    and "\<forall>c \<in> set fcs. (c \<in> set (columns d1)) = (c \<in> set (columns d2))"
  shows "transform ktr tk1 d1 fcs L = transform ktr tk2 d2 fcs L"
  using assms by (rule transform_agree)

theorem transform_deterministic_witness:
  "n_bins example_tokenizer
     = n_bins (example_tokenizer\<lparr>vocab_size := 7,
                 discretizers := (discretizers example_tokenizer)(''volume'' \<mapsto> [1])\<rparr>)
   \<and> list_all2 (same_features [''open'', ''close'']) (rows example_frame)
        (rows (example_frame\<lparr>columns := [''volume'', ''close'', ''open'']\<rparr>))
   \<and> transform edges_transform example_tokenizer example_frame [''open'', ''close''] 2
       = transform edges_transform
           (example_tokenizer\<lparr>vocab_size := 7,
              discretizers := (discretizers example_tokenizer)(''volume'' \<mapsto> [1])\<rparr>)
           (example_frame\<lparr>columns := [''volume'', ''close'', ''open'']\<rparr>) [''open'', ''close''] 2"
proof -
  let ?tk2 = "example_tokenizer\<lparr>vocab_size := 7,
                 discretizers := (discretizers example_tokenizer)(''volume'' \<mapsto> [1])\<rparr>"
  let ?d2 = "example_frame\<lparr>columns := [''volume'', ''close'', ''open'']\<rparr>"
  have h1: "n_bins example_tokenizer = n_bins ?tk2" by simp
  have h2: "length (special_tokens example_tokenizer) = length (special_tokens ?tk2)" by simp
  have h3: "\<forall>c \<in> set [''open'', ''close'']. discretizers example_tokenizer c = discretizers ?tk2 c"
    by simp
  have h4: "list_all2 (same_features [''open'', ''close'']) (rows example_frame) (rows ?d2)"
    by (simp add: list_all2_refl same_features_def list_all_iff)
  have h5: "\<forall>c \<in> set [''open'', ''close'']. (c \<in> set (columns example_frame)) = (c \<in> set (columns ?d2))"
    by (simp add: example_frame_fields)
  from transform_deterministic [OF h1 h2 h3 h4 h5, of edges_transform 2] h1 h4
  show ?thesis by blast
qed

text \<open>
  C9. A tokenizer that has been saved is loaded back with the same \<open>n_bins\<close>,
  \<open>vocab_size\<close>, discretizers and special tokens, so that its \<open>transform\<close> agrees with the
  original's on every input. \<open>load\<close> takes no data: nothing is fitted again.
\<close>

theorem save_load_round_trip:
  assumes "save tk filepath fs = Inr fs'"
  shows "\<exists>tk'. load filepath fs' = Inr tk'
           \<and> n_bins tk' = n_bins tk \<and> vocab_size tk' = vocab_size tk
           \<and> discretizers tk' = discretizers tk \<and> special_tokens tk' = special_tokens tk
           \<and> (\<forall>ktr data fcs L. transform ktr tk' data fcs L = transform ktr tk data fcs L)"
proof -
  from assms have "load filepath fs' = Inr tk"
    by (auto simp: save_def load_def init_def Let_def split: if_splits)
  then show ?thesis by simp
qed

theorem save_load_round_trip_witness:
  "save example_tokenizer ''kronos_tokenizer.pkl'' empty_disk
     = Inr (empty_disk\<lparr>files :=
              [''kronos_tokenizer.pkl'' \<mapsto>
                 \<lparr>td_n_bins = 1000, td_vocab_size = 10000,
                  td_discretizers = [''open'' \<mapsto> [10, 20, 30], ''close'' \<mapsto> [10, 20, 30]],
                  td_special_tokens = default_special_tokens\<rparr>]\<rparr>)
   \<and> load ''kronos_tokenizer.pkl''
        (empty_disk\<lparr>files :=
              [''kronos_tokenizer.pkl'' \<mapsto>
                 \<lparr>td_n_bins = 1000, td_vocab_size = 10000,
                  td_discretizers = [''open'' \<mapsto> [10, 20, 30], ''close'' \<mapsto> [10, 20, 30]],
                  td_special_tokens = default_special_tokens\<rparr>]\<rparr>)
       = Inr example_tokenizer"
proof -
  let ?fs' = "empty_disk\<lparr>files :=
              [''kronos_tokenizer.pkl'' \<mapsto>
                 \<lparr>td_n_bins = 1000, td_vocab_size = 10000,
                  td_discretizers = [''open'' \<mapsto> [10, 20, 30], ''close'' \<mapsto> [10, 20, 30]],
                  td_special_tokens = default_special_tokens\<rparr>]\<rparr>"
  have sv: "save example_tokenizer ''kronos_tokenizer.pkl'' empty_disk = Inr ?fs'"
    by (simp add: save_def empty_disk_def example_tokenizer_def init_def)
  from save_load_round_trip [OF sv] obtain tk' where
    "load ''kronos_tokenizer.pkl'' ?fs' = Inr tk'" and "n_bins tk' = n_bins example_tokenizer"
    and "vocab_size tk' = vocab_size example_tokenizer"
    and "discretizers tk' = discretizers example_tokenizer"
    and "special_tokens tk' = special_tokens example_tokenizer"
    by blast
  then have "load ''kronos_tokenizer.pkl'' ?fs' = Inr example_tokenizer"
    by simp
  with sv show ?thesis by simp
qed

lemma fit_loop_vocab:
  "fit_loop kfit data (tk\<lparr>vocab_size := v\<rparr>) fcs =
     map_sum id (\<lambda>t. t\<lparr>vocab_size := v\<rparr>) (fit_loop kfit data tk fcs)"
proof (induction fcs arbitrary: tk)
  case Nil
  show ?case by simp
next
  case (Cons c cs)
  have upd: "tk\<lparr>vocab_size := v, discretizers := m\<rparr> = tk\<lparr>discretizers := m, vocab_size := v\<rparr>" for m
    by simp
  show ?case
    by (simp add: upd Cons.IH del: tokenizer.update_convs)
qed

lemma round_f64_ge: "0 \<le> m \<Longrightarrow> m \<le> 2 ^ 53 \<Longrightarrow> m \<le> x \<Longrightarrow> m \<le> round_f64 x"
proof -
  assume m: "0 \<le> m" "m \<le> 2 ^ 53" "m \<le> x"
  then have "m \<le> min x (2 ^ 53)" by (simp only: min.bounded_iff)
  also have "\<dots> \<le> round_f64 x" using m by (intro round_f64_cap) simp
  finally show ?thesis .
qed

lemma f64_accumulate_nonneg:
  "0 \<le> b \<Longrightarrow> \<forall>d \<in> set ds. 0 \<le> d \<Longrightarrow> 0 \<le> f64_accumulate b ds"
proof (induction ds rule: rev_induct)
  case Nil
  show ?case by (simp add: f64_accumulate_def)
next
  case (snoc d ds)
  then have "0 \<le> f64_accumulate b ds" and "0 \<le> d" by simp_all
  moreover have "0 \<le> round_f64 b" using snoc.prems(1) by (rule round_f64_nonneg)
  ultimately have "0 \<le> round_f64 (f64_accumulate b ds * round_f64 b) + d"
    by (simp add: round_f64_nonneg)
  then show ?case by (simp only: f64_accumulate_snoc round_f64_nonneg)
qed

lemma f64_accumulate_last:
  assumes "0 \<le> b" and "\<forall>d \<in> set ds. 0 \<le> d" and "0 \<le> m" and "m \<le> 2 ^ 53" and "m \<le> d"
  shows "m \<le> f64_accumulate b (ds @ [d])"
proof -
  have "0 \<le> round_f64 (f64_accumulate b ds * round_f64 b)"
    using assms(1,2) by (intro round_f64_nonneg mult_nonneg_nonneg f64_accumulate_nonneg)
  with assms(5) have "m \<le> round_f64 (f64_accumulate b ds * round_f64 b) + d" by simp
  with assms(3,4) show ?thesis
    by (simp only: f64_accumulate_snoc round_f64_ge)
qed

lemma min_scale:
  "0 \<le> x \<Longrightarrow> 1 \<le> c \<Longrightarrow> min (x * c) (2 ^ 53) \<le> min x (2 ^ 53) * (c::int)"
proof (cases "x \<le> 2 ^ 53")
  case True
  then have "min x (2 ^ 53) = x" by (simp only: min_absorb1)
  then show ?thesis by (simp only: min.cobounded1)
next
  case False
  assume c: "1 \<le> c"
  from False have "min x (2 ^ 53) = 2 ^ 53" by (simp only: min_def if_False)
  moreover have "(2::int) ^ 53 * 1 \<le> 2 ^ 53 * c" using c by (intro mult_left_mono) simp_all
  ultimately have "(2::int) ^ 53 \<le> min x (2 ^ 53) * c" by simp
  then show ?thesis by (simp only: min_le_iff_disj) simp
qed

lemma f64_accumulate_lower:
  assumes "1 \<le> round_f64 b" and "0 \<le> m" and "\<forall>d \<in> set ds. m \<le> d" and "ds \<noteq> []"
  shows "min (m * round_f64 b ^ (length ds - 1)) (2 ^ 53) \<le> f64_accumulate b ds"
  using assms(3,4)
proof (induction ds rule: rev_induct)
  case Nil
  then show ?case by simp
next
  case (snoc d ds)
  let ?c = "round_f64 b"
  let ?M = "min (m * ?c ^ length ds) (2 ^ 53)"
  have M0: "0 \<le> ?M" using assms(1,2) by simp
  have MB: "?M \<le> 2 ^ 53" by (rule min.cobounded2)
  have d: "m \<le> d" using snoc.prems by simp
  have "?M \<le> round_f64 (f64_accumulate b ds * ?c) + d"
  proof (cases "ds = []")
    case True
    have "?M \<le> m" using True by simp
    also have "m \<le> 0 + d" using d by simp
    finally show ?thesis using True by (simp add: f64_accumulate_def round_f64_small)
  next
    case False
    with snoc have IH: "min (m * ?c ^ (length ds - 1)) (2 ^ 53) \<le> f64_accumulate b ds" by simp
    have pw: "m * ?c ^ (length ds - 1) * ?c = m * ?c ^ length ds"
      using False by (cases ds) simp_all
    have "0 \<le> m * ?c ^ (length ds - 1)" using assms(1,2) by simp
    from min_scale [OF this assms(1)]
    have "?M \<le> min (m * ?c ^ (length ds - 1)) (2 ^ 53) * ?c" by (simp only: pw)
    also have "\<dots> \<le> f64_accumulate b ds * ?c"
      using IH assms(1) by (intro mult_right_mono) simp_all
    finally have "?M \<le> round_f64 (f64_accumulate b ds * ?c)"
      using M0 MB by (intro round_f64_ge)
    moreover have "0 \<le> d" using d assms(2) by simp
    ultimately show ?thesis by simp
  qed
  with M0 MB have "?M \<le> round_f64 (round_f64 (f64_accumulate b ds * ?c) + d)"
    by (intro round_f64_ge)
  then show ?case by (simp only: f64_accumulate_snoc length_append_singleton diff_Suc_1)
qed

lemma length_f64_digits: "length (f64_digits ktr tk fcs r) = length (fitted_columns tk fcs)"
  by (simp add: f64_digits_fitted)

lemma f64_digits_lower:
  assumes "0 \<le> m" and "m \<le> 2 ^ 53" and "m \<le> int (length (special_tokens tk))"
  shows "\<forall>d \<in> set (f64_digits ktr tk fcs r). m \<le> d"
proof
  fix d assume "d \<in> set (f64_digits ktr tk fcs r)"
  then obtain k :: nat
    where d: "d = round_f64 (round_f64 (int k) + round_f64 (int (length (special_tokens tk))))"
    by (auto simp: f64_digits_fitted)
  have "0 \<le> round_f64 (int k)" by (rule round_f64_nonneg) simp
  moreover have "m \<le> round_f64 (int (length (special_tokens tk)))"
    using assms by (rule round_f64_ge)
  ultimately have "m \<le> round_f64 (int k) + round_f64 (int (length (special_tokens tk)))"
    by simp
  with assms(1,2) show "m \<le> d" unfolding d by (intro round_f64_ge)
qed

lemma row_token_at_least_special:
  assumes "fitted_columns tk fcs \<noteq> []"
  shows "min (int (length (special_tokens tk))) (2 ^ 53) \<le> row_token ktr tk fcs r"
proof -
  let ?m = "min (int (length (special_tokens tk))) (2 ^ 53)"
  let ?ds = "f64_digits ktr tk fcs r"
  have m0: "0 \<le> ?m" by simp
  have mB: "?m \<le> 2 ^ 53" by (rule min.cobounded2)
  have low: "\<forall>d \<in> set ?ds. ?m \<le> d"
    using m0 mB by (rule f64_digits_lower) (rule min.cobounded1)
  from assms have "?ds \<noteq> []" using length_f64_digits [of ktr tk fcs r] by auto
  then obtain ds d where snoc: "?ds = ds @ [d]" by (metis rev_exhaust)
  from low snoc have d: "?m \<le> d" and nn: "\<forall>e \<in> set ds. 0 \<le> e"
    using m0 by (auto simp del: map_eq_append_conv dest: order_trans)
  have "0 \<le> radix tk" by (simp add: radix_def)
  from f64_accumulate_last [OF this nn m0 mB d] show ?thesis
    by (simp only: row_token_def snoc)
qed

lemma row_token_three_columns:
  assumes "n_bins tk = 1000" and "length (special_tokens tk) = 5"
    and "3 \<le> length (fitted_columns tk fcs)"
  shows "10000 < row_token ktr tk fcs r"
proof -
  let ?ds = "f64_digits ktr tk fcs r"
  from assms have rad: "radix tk = 1005" by (simp add: radix_def)
  have c: "round_f64 1005 = 1005" by (rule round_f64_small) simp
  have low: "\<forall>d \<in> set ?ds. 5 \<le> d"
    by (rule f64_digits_lower) (simp_all add: assms(2))
  have len: "length ?ds = length (fitted_columns tk fcs)" by (simp add: length_f64_digits)
  with assms(3) have ne: "?ds \<noteq> []" by auto
  have "min (5 * round_f64 1005 ^ (length ?ds - 1)) (2 ^ 53) \<le> f64_accumulate 1005 ?ds"
    using low ne by (intro f64_accumulate_lower) (simp_all add: c)
  moreover have "(1005::int) ^ 2 \<le> 1005 ^ (length ?ds - 1)"
    using assms(3) len by (intro power_increasing) auto
  then have "(5::int) * 1005 ^ 2 \<le> 5 * 1005 ^ (length ?ds - 1)"
    by (rule mult_left_mono) simp
  then have "(10000::int) < 5 * 1005 ^ (length ?ds - 1)"
    by (rule less_le_trans [rotated]) simp
  then have "(10000::int) < min (5 * round_f64 1005 ^ (length ?ds - 1)) (2 ^ 53)"
    unfolding c by simp
  ultimately show ?thesis by (simp only: row_token_def rad)
qed


text \<open>
  C10, as amended. \<open>vocab_size\<close> is never read: fitting a tokenizer that differs only in
  \<open>vocab_size\<close> gives a tokenizer that differs only in \<open>vocab_size\<close>, and \<open>transform\<close>
  returns the same for both. Every composite token is at least the number of special
  tokens (5 for a constructed tokenizer); the tokens being doubles, this is stated for the
  number of special tokens capped at \<open>2 ^ 53\<close>, which is that number for every list
  shorter than \<open>2 ^ 53\<close> (lemma \<open>long_special_tokens\<close> shows a longer one). With 1000 bins,
  5 special tokens and three or more fitted feature columns every composite token exceeds
  10000.
\<close>

theorem vocab_size_unused:
  "(fit kfit tk data fcs = Inr t1 \<longrightarrow>
      fit kfit (tk\<lparr>vocab_size := v\<rparr>) data fcs = Inr (t1\<lparr>vocab_size := v\<rparr>)
      \<and> (\<forall>ktr data' fcs' L.
            transform ktr (t1\<lparr>vocab_size := v\<rparr>) data' fcs' L = transform ktr t1 data' fcs' L))
   \<and> (symbol_tokens ktr tk data fcs s = Inr toks \<longrightarrow>
        (\<forall>t \<in> set toks. min (int (length (special_tokens tk))) (2 ^ 53) \<le> t)
        \<and> (n_bins tk = 1000 \<and> length (special_tokens tk) = 5
             \<and> 3 \<le> length (fitted_columns tk fcs) \<longrightarrow> (\<forall>t \<in> set toks. 10000 < t)))
   \<and> length (special_tokens (init nb vs :: 'd tokenizer)) = 5"
proof (intro conjI impI)
  assume f: "fit kfit tk data fcs = Inr t1"
  then show "fit kfit (tk\<lparr>vocab_size := v\<rparr>) data fcs = Inr (t1\<lparr>vocab_size := v\<rparr>)"
    by (simp add: fit_def fit_loop_vocab)
  show "\<forall>ktr data' fcs' L.
            transform ktr (t1\<lparr>vocab_size := v\<rparr>) data' fcs' L = transform ktr t1 data' fcs' L"
    by (intro allI transform_agree) (simp_all add: list_all2_refl same_features_def list_all_iff)
next
  assume st: "symbol_tokens ktr tk data fcs s = Inr toks"
  then have ne: "fitted_columns tk fcs \<noteq> []"
    and toks: "toks = map (row_token ktr tk fcs) (symbol_rows data s)"
    by (auto simp: symbol_tokens_char split: if_splits)
  show "\<forall>t \<in> set toks. min (int (length (special_tokens tk))) (2 ^ 53) \<le> t"
  proof
    fix t assume "t \<in> set toks"
    with toks obtain r where t: "t = row_token ktr tk fcs r" by auto
    show "min (int (length (special_tokens tk))) (2 ^ 53) \<le> t"
      unfolding t using ne by (rule row_token_at_least_special)
  qed
  show "\<forall>t \<in> set toks. 10000 < t"
    if big: "n_bins tk = 1000 \<and> length (special_tokens tk) = 5 \<and> 3 \<le> length (fitted_columns tk fcs)"
  proof
    fix t assume "t \<in> set toks"
    with toks obtain r where t: "t = row_token ktr tk fcs r" by auto
    from big show "10000 < t"
      unfolding t by (intro row_token_three_columns) simp_all
  qed
next
  show "length (special_tokens (init nb vs :: 'd tokenizer)) = 5"
    by (rule length_init_special)
qed

theorem vocab_size_unused_witness:
  "(\<exists>t1. fit edges_fit (init 1000 10000) example_frame [''open'', ''close''] = Inr t1
         \<and> fit edges_fit ((init 1000 10000)\<lparr>vocab_size := 50\<rparr>) example_frame [''open'', ''close'']
             = Inr (t1\<lparr>vocab_size := 50\<rparr>)
         \<and> transform edges_transform (t1\<lparr>vocab_size := 50\<rparr>) example_frame [''open'', ''close''] 2
             = transform edges_transform t1 example_frame [''open'', ''close''] 2)
   \<and> symbol_tokens edges_transform
        (example_tokenizer\<lparr>discretizers := (discretizers example_tokenizer)(''volume'' \<mapsto> [10, 20, 30])\<rparr>)
        (example_frame\<lparr>columns := [''open'', ''close'', ''volume'']\<rparr>)
        [''open'', ''close'', ''volume''] ''INFY''
       = Inr [5055155, 6067192, 8086236]
   \<and> 3 \<le> length (fitted_columns
                    (example_tokenizer\<lparr>discretizers := (discretizers example_tokenizer)(''volume'' \<mapsto> [10, 20, 30])\<rparr>)
                    [''open'', ''close'', ''volume''])
   \<and> (5::int) \<le> 5055155 \<and> (10000::int) < 5055155"
proof -
  let ?tk3 = "example_tokenizer\<lparr>discretizers := (discretizers example_tokenizer)(''volume'' \<mapsto> [10, 20, 30])\<rparr>"
  let ?d3 = "example_frame\<lparr>columns := [''open'', ''close'', ''volume'']\<rparr>"
  obtain t1 where ft: "fit edges_fit (init 1000 10000) example_frame [''open'', ''close''] = Inr t1"
    by (simp add: fit_def example_frame_fields)
  note fit_part = vocab_size_unused
    [of edges_fit "init 1000 10000" example_frame "[''open'', ''close'']" t1 50,
     THEN conjunct1, rule_format, OF ft]
  from fit_part have fit2:
    "fit edges_fit ((init 1000 10000)\<lparr>vocab_size := 50\<rparr>) example_frame [''open'', ''close'']
       = Inr (t1\<lparr>vocab_size := 50\<rparr>)"
    by blast
  from fit_part have tr2:
    "transform edges_transform (t1\<lparr>vocab_size := 50\<rparr>) example_frame [''open'', ''close''] 2
       = transform edges_transform t1 example_frame [''open'', ''close''] 2"
    by blast
  have three: "3 \<le> length (fitted_columns ?tk3 [''open'', ''close'', ''volume''])"
    by (simp add: fitted_columns_def example_tokenizer_fields)
  have big: "n_bins ?tk3 = 1000 \<and> length (special_tokens ?tk3) = 5
               \<and> 3 \<le> length (fitted_columns ?tk3 [''open'', ''close'', ''volume''])"
    using three by (simp add: example_tokenizer_fields)
  note tok_part = vocab_size_unused
    [where tk = ?tk3 and ktr = edges_transform and data = ?d3
       and fcs = "[''open'', ''close'', ''volume'']" and s = "''INFY''"
       and toks = "[5055155, 6067192, 8086236]",
     THEN conjunct2, THEN conjunct1, rule_format, OF example_three_columns]
  from tok_part
  have "\<forall>t \<in> set [5055155, 6067192, 8086236]. min (int (length (special_tokens ?tk3))) (2 ^ 53) \<le> t"
    by blast
  then have low: "(5::int) \<le> 5055155" by (simp add: example_tokenizer_fields)
  from tok_part big have "\<forall>t \<in> set [5055155, 6067192, 8086236 :: int]. 10000 < t"
    by blast
  then have high: "(10000::int) < 5055155" by simp
  from ft fit2 tr2 example_three_columns three low high show ?thesis by blast
qed

text \<open>
  With two fitted feature columns and 1000 bins a composite token need not exceed 10000:
  a row whose two values fall into bin 0 has the token \<open>5 * 1005 + 5 = 5030\<close>.
\<close>

theorem two_columns_below_vocab_size:
  "symbol_tokens edges_transform example_tokenizer example_frame [''open'', ''close''] ''TCS''
     = Inr [7043, 6035, 5032, 5030, 8048]
   \<and> n_bins example_tokenizer = 1000
   \<and> length (special_tokens example_tokenizer) = 5
   \<and> length (fitted_columns example_tokenizer [''open'', ''close'']) = 2
   \<and> \<not> (10000 < (5030::int))"
  by (simp add: symbol_tokens_char fitted_columns_def row_token_def f64_accumulate_def round_f64_small radix_def
      f64_digits_def example_defs)

section \<open>Cleaning: the claim\<close>

lemma set_price_filter: "set (price_filter q rs c) \<subseteq> set rs"
  by (auto simp: price_filter_def)

lemma set_foldl_price_filter: "set (foldl (price_filter q) rs cs) \<subseteq> set rs"
proof (induction cs arbitrary: rs)
  case Nil
  show ?case by simp
next
  case (Cons c cs)
  have "set (foldl (price_filter q) (price_filter q rs c) cs) \<subseteq> set (price_filter q rs c)"
    by (rule Cons.IH)
  also have "\<dots> \<subseteq> set rs" by (rule set_price_filter)
  finally show ?case by simp
qed

lemma price_filter_bounds: "r \<in> set (price_filter q rs c) \<Longrightarrow> in_bounds (price_bounds q rs c) (vals r c)"
  by (simp add: price_filter_def)

lemma volume_filter_bounds:
  "r \<in> set (volume_filter q rs) \<Longrightarrow> r \<in> set rs \<and> in_bounds (volume_bounds q rs) (vals r ''volume'')"
  by (simp add: volume_filter_def)

lemma in_bounds_iff:
  "in_bounds b v = (\<exists>l h x. b = (Some l, Some h) \<and> v = Some x \<and> l \<le> x \<and> x \<le> h)"
  by (cases b) (auto simp: in_bounds_def nan_ge_def nan_le_def split: option.splits)

lemma clean_loop_char:
  "clean_loop q data ss =
     (if ss = [] then Inr []
      else if \<not> set price_columns \<subseteq> set (columns data) \<or> ''volume'' \<notin> set (columns data)
      then Inl KeyError
      else Inr (map (\<lambda>s. volume_filter q (foldl (price_filter q)
                                            (filter (\<lambda>r. symbol r = s) (rows data)) price_columns))
                  ss))"
  by (induction ss) (auto simp: clean_symbol_def)

lemma clean_data_rows:
  assumes "clean_data q data = Inr (Some out)" and "r \<in> set (rows out)"
  shows "r \<in> set (volume_filter q (foldl (price_filter q)
            (filter (\<lambda>x. symbol x = symbol r) (rows (dropna data))) price_columns))"
proof -
  let ?d = "dropna data"
  let ?clean = "\<lambda>s. volume_filter q (foldl (price_filter q)
                                       (filter (\<lambda>x. symbol x = s) (rows ?d)) price_columns)"
  from assms(1) have "rows out = concat (map ?clean (unique (map symbol (rows ?d))))"
    by (auto simp: clean_data_def clean_loop_char Let_def split: if_splits)
  with assms(2) obtain s where r: "r \<in> set (?clean s)" by auto
  then have "r \<in> set (foldl (price_filter q) (filter (\<lambda>x. symbol x = s) (rows ?d)) price_columns)"
    by (simp add: volume_filter_def)
  then have "r \<in> set (filter (\<lambda>x. symbol x = s) (rows ?d))"
    using set_foldl_price_filter by blast
  then have "symbol r = s" by simp
  with r show ?thesis by simp
qed


lemma dirty_dropna: "rows (dropna dirty_days) = rows five_days @ [ohlcv ''TCS.NS'' 6 100 103 99 250 5100]"
  by (simp add: dropna_def dirty_days_def five_days_def ohlcv_def)

lemma dirty_symbols: "unique (map symbol (rows (dropna dirty_days))) = [''TCS.NS'']"
  by (simp add: dirty_dropna five_days_def ohlcv_def)

lemma dirty_columns: "columns (dropna dirty_days) = [''open'', ''high'', ''low'', ''close'', ''volume'']"
  by (simp add: dropna_def dirty_days_def five_days_def)

lemma dirty_symbol_rows:
  "filter (\<lambda>r. symbol r = ''TCS.NS'') (rows (dropna dirty_days)) = rows (dropna dirty_days)"
  by (simp add: dirty_dropna five_days_def ohlcv_def)

lemma dirty_open:
  "price_filter quantile_linear (rows (dropna dirty_days)) ''open'' = rows (dropna dirty_days)"
  by (simp add: dirty_dropna five_days_def price_filter_def price_bounds_def column_values_def
      ohlcv_def quantile_linear_def in_bounds_def nan_ge_def nan_le_def
      nan_sub_def nan_add_def nan_scale_def Let_def)

lemma dirty_high:
  "price_filter quantile_linear (rows (dropna dirty_days)) ''high'' = rows (dropna dirty_days)"
  by (simp add: dirty_dropna five_days_def price_filter_def price_bounds_def column_values_def
      ohlcv_def quantile_linear_def in_bounds_def nan_ge_def nan_le_def
      nan_sub_def nan_add_def nan_scale_def Let_def)

lemma dirty_low:
  "price_filter quantile_linear (rows (dropna dirty_days)) ''low'' = rows (dropna dirty_days)"
  by (simp add: dirty_dropna five_days_def price_filter_def price_bounds_def column_values_def
      ohlcv_def quantile_linear_def in_bounds_def nan_ge_def nan_le_def
      nan_sub_def nan_add_def nan_scale_def Let_def)

lemma dirty_close_bounds:
  "price_bounds quantile_linear (rows (dropna dirty_days)) ''close'' = (Some (763 / 8), Some (867 / 8))"
  by (simp add: dirty_dropna five_days_def price_bounds_def column_values_def
      ohlcv_def quantile_linear_def
      nan_sub_def nan_add_def nan_scale_def Let_def)

lemma dirty_close:
  "price_filter quantile_linear (rows (dropna dirty_days)) ''close'' = rows five_days"
  unfolding price_filter_def dirty_close_bounds
  by (simp add: dirty_dropna five_days_def ohlcv_def in_bounds_def nan_ge_def nan_le_def)

lemma dirty_volume_bounds:
  "volume_bounds quantile_linear (rows five_days) = (Some 3500, Some 7000)"
  by (simp add: five_days_def volume_bounds_def column_values_def
      ohlcv_def quantile_linear_def
      nan_sub_def nan_add_def nan_scale_def py_max0_def Let_def)

lemma dirty_volume:
  "volume_filter quantile_linear (rows five_days) = rows five_days"
  unfolding volume_filter_def dirty_volume_bounds
  by (simp add: five_days_def ohlcv_def in_bounds_def nan_ge_def nan_le_def)

lemma dirty_clean: "clean_data quantile_linear dirty_days = Inr (Some five_days)"
proof -
  have "dropna dirty_days\<lparr>rows := rows five_days\<rparr> = five_days"
    by (simp add: dropna_def dirty_days_def five_days_def)
  then show ?thesis
    by (simp add: clean_data_def Let_def dirty_symbols clean_symbol_def dirty_columns
        price_columns_def dirty_symbol_rows dirty_open dirty_high dirty_low dirty_close dirty_volume)
qed


text \<open>
  C7. A row that \<open>clean_data\<close> retains lies within the bounds the code computed for each
  of the five filtered columns of its symbol: \<open>Q1 - 1.5 * IQR\<close> and \<open>Q3 + 1.5 * IQR\<close> for
  \<open>open\<close>, \<open>high\<close>, \<open>low\<close> and \<open>close\<close>, \<open>max(0, Q1 - 3 * IQR)\<close> and
  \<open>Q3 + 3 * IQR\<close> for \<open>volume\<close>, the quartiles of a column being taken over the rows of
  the symbol that the filters of the columns before it have left.
\<close>

theorem retained_rows_within_bounds:
  assumes "clean_data quantile data = Inr (Some out)" and "r \<in> set (rows out)"
  shows "(let rs0 = filter (\<lambda>x. symbol x = symbol r) (rows (dropna data));
              rs1 = price_filter quantile rs0 ''open'';
              rs2 = price_filter quantile rs1 ''high'';
              rs3 = price_filter quantile rs2 ''low'';
              rs4 = price_filter quantile rs3 ''close''
          in r \<in> set (volume_filter quantile rs4)
             \<and> (\<exists>lo hi v. price_bounds quantile rs0 ''open'' = (Some lo, Some hi)
                    \<and> vals r ''open'' = Some v \<and> lo \<le> v \<and> v \<le> hi)
             \<and> (\<exists>lo hi v. price_bounds quantile rs1 ''high'' = (Some lo, Some hi)
                    \<and> vals r ''high'' = Some v \<and> lo \<le> v \<and> v \<le> hi)
             \<and> (\<exists>lo hi v. price_bounds quantile rs2 ''low'' = (Some lo, Some hi)
                    \<and> vals r ''low'' = Some v \<and> lo \<le> v \<and> v \<le> hi)
             \<and> (\<exists>lo hi v. price_bounds quantile rs3 ''close'' = (Some lo, Some hi)
                    \<and> vals r ''close'' = Some v \<and> lo \<le> v \<and> v \<le> hi)
             \<and> (\<exists>lo hi v. volume_bounds quantile rs4 = (Some lo, Some hi)
                    \<and> vals r ''volume'' = Some v \<and> lo \<le> v \<and> v \<le> hi))
         \<and> (\<forall>rs c q1 q3.
               quantile (column_values c rs) (1 / 4) = Some q1
               \<and> quantile (column_values c rs) (3 / 4) = Some q3
               \<longrightarrow> price_bounds quantile rs c
                     = (Some (q1 - 3 / 2 * (q3 - q1)), Some (q3 + 3 / 2 * (q3 - q1))))
         \<and> (\<forall>rs q1 q3.
               quantile (column_values ''volume'' rs) (1 / 4) = Some q1
               \<and> quantile (column_values ''volume'' rs) (3 / 4) = Some q3
               \<longrightarrow> volume_bounds quantile rs
                     = (Some (max 0 (q1 - 3 * (q3 - q1))), Some (q3 + 3 * (q3 - q1))))"
proof -
  let ?rs0 = "filter (\<lambda>x. symbol x = symbol r) (rows (dropna data))"
  let ?rs1 = "price_filter quantile ?rs0 ''open''"
  let ?rs2 = "price_filter quantile ?rs1 ''high''"
  let ?rs3 = "price_filter quantile ?rs2 ''low''"
  let ?rs4 = "price_filter quantile ?rs3 ''close''"
  from clean_data_rows [OF assms] have vol: "r \<in> set (volume_filter quantile ?rs4)"
    by (simp add: price_columns_def)
  then have r4: "r \<in> set ?rs4"
    and bv: "in_bounds (volume_bounds quantile ?rs4) (vals r ''volume'')"
    by (auto dest: volume_filter_bounds)
  from r4 have r3: "r \<in> set ?rs3" using set_price_filter by blast
  then have r2: "r \<in> set ?rs2" using set_price_filter by blast
  then have r1: "r \<in> set ?rs1" using set_price_filter by blast
  note b = price_filter_bounds [OF r1] price_filter_bounds [OF r2] price_filter_bounds [OF r3]
    price_filter_bounds [OF r4]
  have pb: "price_bounds quantile rs c
              = (Some (q1 - 3 / 2 * (q3 - q1)), Some (q3 + 3 / 2 * (q3 - q1)))"
    if "quantile (column_values c rs) (1 / 4) = Some q1"
      and "quantile (column_values c rs) (3 / 4) = Some q3" for rs c q1 q3
    using that by (simp add: price_bounds_def nan_sub_def nan_add_def nan_scale_def)
  have vb: "volume_bounds quantile rs
              = (Some (max 0 (q1 - 3 * (q3 - q1))), Some (q3 + 3 * (q3 - q1)))"
    if "quantile (column_values ''volume'' rs) (1 / 4) = Some q1"
      and "quantile (column_values ''volume'' rs) (3 / 4) = Some q3" for rs q1 q3
    using that
    by (simp add: volume_bounds_def nan_sub_def nan_add_def nan_scale_def py_max0_def max_def)
  from vol b bv pb vb show ?thesis
    by (simp add: in_bounds_iff Let_def)
qed

theorem retained_rows_within_bounds_witness:
  "clean_data quantile_linear dirty_days = Inr (Some five_days)
   \<and> ohlcv ''TCS.NS'' 3 104 106 100 101 6100 \<in> set (rows five_days)
   \<and> price_bounds quantile_linear (rows (dropna dirty_days)) ''close'' = (Some (763 / 8), Some (867 / 8))
   \<and> (\<exists>lo hi v. price_bounds quantile_linear (rows (dropna dirty_days)) ''close'' = (Some lo, Some hi)
          \<and> vals (ohlcv ''TCS.NS'' 3 104 106 100 101 6100) ''close'' = Some v \<and> lo \<le> v \<and> v \<le> hi)
   \<and> volume_bounds quantile_linear (rows five_days) = (Some 3500, Some 7000)
   \<and> (\<exists>lo hi v. volume_bounds quantile_linear (rows five_days) = (Some lo, Some hi)
          \<and> vals (ohlcv ''TCS.NS'' 3 104 106 100 101 6100) ''volume'' = Some v \<and> lo \<le> v \<and> v \<le> hi)"
proof -
  have mem: "ohlcv ''TCS.NS'' 3 104 106 100 101 6100 \<in> set (rows five_days)"
    by (simp add: five_days_def)
  have sym: "symbol (ohlcv ''TCS.NS'' 3 104 106 100 101 6100) = ''TCS.NS''"
    by (simp add: ohlcv_def)
  from retained_rows_within_bounds [OF dirty_clean mem, THEN conjunct1]
  have "(\<exists>lo hi v. price_bounds quantile_linear (rows (dropna dirty_days)) ''close'' = (Some lo, Some hi)
          \<and> vals (ohlcv ''TCS.NS'' 3 104 106 100 101 6100) ''close'' = Some v \<and> lo \<le> v \<and> v \<le> hi)
      \<and> (\<exists>lo hi v. volume_bounds quantile_linear (rows five_days) = (Some lo, Some hi)
          \<and> vals (ohlcv ''TCS.NS'' 3 104 106 100 101 6100) ''volume'' = Some v \<and> lo \<le> v \<and> v \<le> hi)"
    unfolding Let_def sym dirty_symbol_rows dirty_open dirty_high dirty_low dirty_close
    by blast
  with dirty_clean mem dirty_close_bounds dirty_volume_bounds show ?thesis by blast
qed

section \<open>Preparing the input of a prediction: the claim\<close>

lemma length_rolling: "length (rolling f window xs) = length xs"
  by (simp add: rolling_def)

lemma rolling_nth_warm_up: "i < length xs \<Longrightarrow> i + 1 < window \<Longrightarrow> rolling f window xs ! i = None"
  by (simp add: rolling_def)

lemma rolling_warm_up: "v \<in> set (take (window - 1) (rolling f window xs)) \<Longrightarrow> v = None"
  by (auto simp: in_set_conv_nth length_rolling rolling_nth_warm_up)

lemma filter_skip:
  "\<forall>x \<in> set (take k xs). \<not> P x \<Longrightarrow> length (filter P xs) \<le> length xs - k"
proof -
  assume "\<forall>x \<in> set (take k xs). \<not> P x"
  then have "filter P (take k xs) = []" by (simp add: filter_empty_conv)
  then have "filter P xs = filter P (drop k xs)"
    by (metis append_Nil append_take_drop_id filter_append)
  moreover have "length (filter P (drop k xs)) \<le> length (drop k xs)" by (rule length_filter_le)
  ultimately show ?thesis by simp
qed

lemma dropna_skip:
  "c \<in> set (columns d) \<Longrightarrow> \<forall>r \<in> set (take k (rows d)). vals r c = None
     \<Longrightarrow> length (rows (dropna d)) \<le> length (rows d) - k"
  unfolding dropna_def by (simp, rule filter_skip) (auto simp: list_all_iff)

lemma warm_step:
  "c \<noteq> c0 \<Longrightarrow>
   c0 \<in> set (columns d) \<and> (\<forall>r \<in> set (take k (rows d)). vals r c0 = None) \<and> length (rows d) \<le> n
   \<Longrightarrow> c0 \<in> set (columns (set_column c s d))
       \<and> (\<forall>r \<in> set (take k (rows (set_column c s d))). vals r c0 = None)
       \<and> length (rows (set_column c s d)) \<le> n"
  by (auto simp: set_column_def take_map take_zip dest!: set_zip_leftD)

lemma warm_base:
  "\<forall>v \<in> set (take k s). v = None \<Longrightarrow> length (rows d) \<le> n
   \<Longrightarrow> c0 \<in> set (columns (set_column c0 s d))
       \<and> (\<forall>r \<in> set (take k (rows (set_column c0 s d))). vals r c0 = None)
       \<and> length (rows (set_column c0 s d)) \<le> n"
  by (auto simp: set_column_def take_map take_zip dest!: set_zip_rightD)

lemma add_indicators_warm_up:
  "''sma_20'' \<in> set (columns (add_indicators data))
   \<and> (\<forall>r \<in> set (take 19 (rows (add_indicators data))). vals r ''sma_20'' = None)
   \<and> length (rows (add_indicators data)) \<le> length (rows data)"
proof -
  have short: "\<forall>v \<in> set (take 19 (rolling mean 20 (get_column ''close'' data))). v = None"
    using rolling_warm_up [of _ 20 mean "get_column ''close'' data"] by simp
  have base: "length (rows (set_column ''sma_5'' s data)) \<le> length (rows data)" for s
    by (simp add: set_column_def)
  show ?thesis
    unfolding add_indicators_def Let_def
    by (intro warm_step warm_base short base) simp_all
qed

lemma indicators_length:
  assumes "calculate_technical_indicators data = Inr d"
  shows "length (rows d) \<le> length (rows data) - 19"
proof -
  from assms have d: "d = dropna (add_indicators data)"
    by (auto simp: calculate_technical_indicators_def split: if_splits)
  note w = add_indicators_warm_up [of data]
  from w have col: "''sma_20'' \<in> set (columns (add_indicators data))"
    and warm: "\<forall>r \<in> set (take 19 (rows (add_indicators data))). vals r ''sma_20'' = None"
    and len: "length (rows (add_indicators data)) \<le> length (rows data)"
    by blast+
  from dropna_skip [OF col warm] len d show ?thesis by arith
qed

lemma indicators_warm_up:
  assumes "length (rows data) < 20" and "''close'' \<in> set (columns data)"
  shows "\<exists>d. calculate_technical_indicators data = Inr d \<and> rows d = []"
proof -
  from assms(2) obtain d where d: "calculate_technical_indicators data = Inr d"
    by (simp add: calculate_technical_indicators_def)
  from indicators_length [OF d] assms(1) have "rows d = []" by simp
  with d show ?thesis by blast
qed

lemma length_rows_set_column:
  "length s = length (rows d) \<Longrightarrow> length (rows (set_column c s d)) = length (rows d)"
  by (simp add: set_column_def)

lemma length_rows_apply_scalers:
  "length (rows (apply_scalers ss cs d)) = length (rows d)"
  by (induction cs arbitrary: d) (auto simp: length_rows_set_column get_column_def split: option.splits)

lemma scale_recent_length:
  "scale_recent scalers cs d = Inr d' \<Longrightarrow> length (rows d') = length (rows d)"
  by (auto simp: scale_recent_def length_rows_apply_scalers split: option.splits list.splits)

lemma prepare_window_warm_up:
  assumes "''sma_5'' \<notin> set (columns data)"
    and "prepare_data_for_prediction scalers data L = Inr (warnings, window, d)"
  shows "length window \<le> min L (length (rows data)) - 19"
proof -
  let ?n = "min L (length (rows data))"
  let ?recent = "data\<lparr>rows := tail ?n (sort_key timestamp (rows data))\<rparr>"
  have recent: "length (rows ?recent) = ?n" by (simp add: tail_def)
  from assms obtain d1 where ind: "calculate_technical_indicators ?recent = Inr d1"
    and sc: "scale_recent scalers (filter (\<lambda>col. col \<in> set (columns d1)) feature_columns_all) d1 = Inr d"
    and win: "length window = length (rows d)"
    by (auto simp: prepare_data_for_prediction_def Let_def min_def split: sum.splits if_splits)
  from indicators_length [OF ind] recent have "length (rows d1) \<le> ?n - 19" by simp
  with scale_recent_length [OF sc] win show ?thesis by simp
qed

lemma prepare_short_history:
  assumes "length (rows data) < 20" and "length (rows data) < L"
    and "''sma_5'' \<notin> set (columns data)" and "''close'' \<in> set (columns data)"
  shows "prepare_data_for_prediction (Some (sc # scs)) data L = Inl IndexError
         \<and> (\<exists>d. prepare_data_for_prediction None data L
                    = Inr ([NotEnoughData (length (rows data)) L], [], d) \<and> rows d = [])"
proof -
  let ?recent = "data\<lparr>rows := sort_key timestamp (rows data)\<rparr>"
  have "length (rows ?recent) < 20" and "''close'' \<in> set (columns ?recent)"
    using assms(1,4) by simp_all
  from indicators_warm_up [OF this] obtain d where
    d: "calculate_technical_indicators ?recent = Inr d" "rows d = []"
    by blast
  from d assms(2,3) show ?thesis
    by (simp add: prepare_data_for_prediction_def tail_def scale_recent_def Let_def)
qed

lemma prepare_with_indicators:
  assumes "length (rows data) < L" and "''sma_5'' \<in> set (columns data)"
    and "scalers = None \<or> rows data \<noteq> []"
  shows "\<exists>window d. prepare_data_for_prediction scalers data L
                      = Inr ([NotEnoughData (length (rows data)) L], window, d)
                    \<and> length window = length (rows data)"
proof -
  let ?recent = "data\<lparr>rows := sort_key timestamp (rows data)\<rparr>"
  let ?cols = "filter (\<lambda>col. col \<in> set (columns data)) feature_columns_all"
  have "\<exists>d. scale_recent scalers ?cols ?recent = Inr d \<and> length (rows d) = length (rows data)"
  proof (cases scalers)
    case None
    then show ?thesis by (simp add: scale_recent_def)
  next
    case (Some scs)
    with assms(3) have "rows data \<noteq> []" by simp
    then have "sort_key timestamp (rows data) \<noteq> []"
      by (metis length_sort length_0_conv)
    then obtain r0 rs where "sort_key timestamp (rows data) = r0 # rs"
      by (cases "sort_key timestamp (rows data)") auto
    moreover have "length (r0 # rs) = length (rows data)"
      using calculation by (metis length_sort)
    ultimately show ?thesis using Some
      by (auto simp: scale_recent_def length_rows_apply_scalers split: list.splits option.splits)
  qed
  then obtain d where "scale_recent scalers ?cols ?recent = Inr d"
    and "length (rows d) = length (rows data)" by blast
  with assms(1,2) show ?thesis
    by (simp add: prepare_data_for_prediction_def tail_def Let_def)
qed

text \<open>
  C8. \<open>prepare_data_for_prediction\<close> is given five rows without indicator columns, as
  \<open>download_stock_data\<close> returns them, and \<open>sequence_length = 512\<close>. The indicators are
  computed on the five rows, every row has an undefined 20-day average and is dropped,
  and with loaded scalers the look-up of the symbol in the empty frame raises IndexError;
  without scalers the window returned is empty, not five rows long.
\<close>

theorem prepare_short_history_fails:
  "length (rows five_days) = 5 \<and> ''sma_5'' \<notin> set (columns five_days)
   \<and> prepare_data_for_prediction (Some loaded_scalers) five_days 512 = Inl IndexError
   \<and> (\<exists>d. prepare_data_for_prediction None five_days 512 = Inr ([NotEnoughData 5 512], [], d))"
proof -
  have len: "length (rows five_days) = 5" and no_ind: "''sma_5'' \<notin> set (columns five_days)"
    and close: "''close'' \<in> set (columns five_days)"
    by (simp_all add: five_days_def)
  have "length (rows five_days) < 20" and "length (rows five_days) < 512"
    using len by simp_all
  from prepare_short_history [OF this no_ind close,
      of "(''TCS.NS'', [(''close'', \<lambda>x. (x - 100) / 2)])" "[]"]
  have "prepare_data_for_prediction (Some loaded_scalers) five_days 512 = Inl IndexError"
    and "\<exists>d. prepare_data_for_prediction None five_days 512 = Inr ([NotEnoughData 5 512], [], d)"
    by (auto simp: loaded_scalers_def len)
  with len no_ind show ?thesis by simp
qed

end
